theory Spec2Isabelle
  imports Main
begin

section \<open>Data model of the word-grid game (script.js)\<close>

text \<open>
  A JavaScript string is a sequence of UTF-16 code units; the type of code units is left
  open (\<open>'a\<close>), so a string is an \<open>'a list\<close> and \<open>length\<close> is the string's
  \<open>.length\<close>. A grid cell holds a string (the result of \<open>charAt\<close> followed by
  \<open>toLocaleUpperCase\<close>), a grid is an array of rows. A cell coordinate is the pair
  \<open>(r, c)\<close> read by \<open>parseInt\<close> from the cell element's data attributes.
\<close>

type_synonym cell = "int \<times> int"
type_synonym 'a grid = "'a list list list"

text \<open>The toast shown by \<open>showMessage\<close>: the three error texts and the points message.\<close>

datatype message = CokKisa | ZatenBulundu | KelimeBulunamadi | Puan int

text \<open>
  The fields of \<open>BoggleGame\<close> that the game logic reads or writes. \<open>foundWords\<close>
  is a JavaScript \<open>Set\<close>: a duplicate-free sequence in insertion order.
  \<open>currentWord\<close> is the text content of the current-word element, \<open>messageToast\<close>
  the text last put into the toast element (\<open>None\<close> before the first message).
\<close>

record 'a game =
  score :: int
  foundWords :: "'a list list"
  isGameActive :: bool
  grid :: "'a grid"
  gridSize :: nat
  selectedCells :: "cell list"
  currentWord :: "'a list"
  messageToast :: "message option"
  isDragging :: bool
  interactionMoved :: bool

section \<open>Scoring\<close>

text \<open>The table \<open>SCORING = {3: 1, 4: 1, 5: 2, 6: 3, 7: 5, 8: 11}\<close>.\<close>

definition SCORING :: "nat \<Rightarrow> int option" where
  "SCORING = map_of [(3, 1), (4, 1), (5, 2), (6, 3), (7, 5), (8, 11)]"

text \<open>
  \<open>SCORING[len] || 1\<close>: the right operand replaces a missing entry
  (\<open>undefined\<close>) and the falsy number 0.
\<close>

definition or_default :: "int option \<Rightarrow> int \<Rightarrow> int" where
  "or_default v d = (case v of None \<Rightarrow> d | Some n \<Rightarrow> if n = 0 then d else n)"

definition getScore :: "'a list \<Rightarrow> int" where
  "getScore word =
     (let len = length word
      in if len \<ge> 8 then 11 else or_default (SCORING len) 1)"

section \<open>The selection path\<close>

text \<open>\<open>updateCurrentWord\<close>: the letters of the selected cells, joined.\<close>

definition letterAt :: "'a grid \<Rightarrow> cell \<Rightarrow> 'a list" where
  "letterAt g x = g ! nat (fst x) ! nat (snd x)"

definition updateCurrentWord :: "'a game \<Rightarrow> 'a game" where
  "updateCurrentWord g =
     g\<lparr>currentWord := concat (map (letterAt (grid g)) (selectedCells g))\<rparr>"

definition isCellSelected :: "'a game \<Rightarrow> cell \<Rightarrow> bool" where
  "isCellSelected g x = list_ex (\<lambda>cell. fst cell = fst x \<and> snd cell = snd x) (selectedCells g)"

definition selectCell :: "'a game \<Rightarrow> cell \<Rightarrow> 'a game" where
  "selectCell g x = updateCurrentWord (g\<lparr>selectedCells := selectedCells g @ [x]\<rparr>)"

text \<open>\<open>pop\<close> on an empty array returns \<open>undefined\<close> and nothing is updated.\<close>

definition deselectLast :: "'a game \<Rightarrow> 'a game" where
  "deselectLast g =
     (if selectedCells g = [] then g
      else updateCurrentWord (g\<lparr>selectedCells := butlast (selectedCells g)\<rparr>))"

definition clearSelection :: "'a game \<Rightarrow> 'a game" where
  "clearSelection g = updateCurrentWord (g\<lparr>selectedCells := []\<rparr>)"

text \<open>
  \<open>trySelectCell\<close>: a backtrack when the target is the second-to-last cell of a path of
  more than one cell; otherwise, on a non-empty path, the target is appended when both
  coordinate differences are at most 1, not both 0, and the target is not selected; on
  an empty path the target is selected.
\<close>

definition trySelectCell :: "'a game \<Rightarrow> cell \<Rightarrow> 'a game" where
  "trySelectCell g x =
     (let sel = selectedCells g; r = fst x; c = snd x
      in if length sel > 1 \<and> fst (sel ! (length sel - 2)) = r \<and> snd (sel ! (length sel - 2)) = c
         then deselectLast g
         else if sel \<noteq> [] then
           (let dr = \<bar>r - fst (last sel)\<bar>; dc = \<bar>c - snd (last sel)\<bar>
            in if dr \<le> 1 \<and> dc \<le> 1 \<and> \<not> (dr = 0 \<and> dc = 0)
               then (if \<not> isCellSelected g x then selectCell g x else g)
               else g)
         else selectCell g x)"

section \<open>Submitting a word\<close>

text \<open>
  \<open>commonWords\<close> is a global array of words that may be undefined: an optional list.
  \<open>upper\<close> stands for \<open>toLocaleUpperCase('tr-TR')\<close>.
\<close>

type_synonym 'a dictionary = "'a list list option"

definition showMessage :: "message \<Rightarrow> 'a game \<Rightarrow> 'a game" where
  "showMessage m g = g\<lparr>messageToast := Some m\<rparr>"

definition addScore :: "'a list \<Rightarrow> 'a game \<Rightarrow> 'a game" where
  "addScore word g = g\<lparr>score := score g + getScore word\<rparr>"

text \<open>\<open>Set.add\<close>: a member is not added again, a new element goes last.\<close>

definition set_add :: "'a list \<Rightarrow> 'a \<Rightarrow> 'a list" where
  "set_add s x = (if x \<in> set s then s else s @ [x])"

text \<open>\<open>typeof commonWords !== 'undefined' && !commonWords.includes(word)\<close>\<close>

definition notInDictionary :: "'a dictionary \<Rightarrow> 'a list \<Rightarrow> bool" where
  "notInDictionary dict word = (case dict of None \<Rightarrow> False | Some ws \<Rightarrow> word \<notin> set ws)"

definition submitWord :: "('a list \<Rightarrow> 'a list) \<Rightarrow> 'a dictionary \<Rightarrow> bool \<Rightarrow> 'a game \<Rightarrow> 'a game" where
  "submitWord upper dict isAuto g =
     (if \<not> isGameActive g then g
      else
        let word = upper (currentWord g)
        in if length word < 3 then
             clearSelection (if \<not> isAuto then showMessage CokKisa g else g)
           else if word \<in> set (foundWords g) then
             clearSelection (showMessage ZatenBulundu g)
           else if notInDictionary dict word then
             clearSelection (showMessage KelimeBulunamadi g)
           else
             clearSelection
               (showMessage (Puan (getScore word))
                  ((addScore word g)\<lparr>foundWords := set_add (foundWords g) word\<rparr>)))"

section \<open>Pointer input\<close>

text \<open>
  An event is resolved by \<open>getCellFromEvent\<close> to the cell under the pointer, or to
  \<open>null\<close> (\<open>None\<close>) when the pointer is over no cell.
\<close>

definition handleInputStart :: "'a game \<Rightarrow> cell option \<Rightarrow> 'a game" where
  "handleInputStart g e =
     (if \<not> isGameActive g then g
      else case e of
        None \<Rightarrow> g
      | Some x \<Rightarrow> trySelectCell (g\<lparr>isDragging := True, interactionMoved := False\<rparr>) x)"

definition handleInputMove :: "'a game \<Rightarrow> cell option \<Rightarrow> 'a game" where
  "handleInputMove g e =
     (if \<not> isDragging g \<or> \<not> isGameActive g then g
      else case e of
        None \<Rightarrow> g
      | Some x \<Rightarrow>
          (let previousLength = length (selectedCells g);
               g' = trySelectCell g x
           in if length (selectedCells g') \<noteq> previousLength
              then g'\<lparr>interactionMoved := True\<rparr> else g'))"

definition handleInputEnd :: "('a list \<Rightarrow> 'a list) \<Rightarrow> 'a dictionary \<Rightarrow> 'a game \<Rightarrow> 'a game" where
  "handleInputEnd upper dict g =
     (if isDragging g then
        (let g' = g\<lparr>isDragging := False\<rparr>
         in if interactionMoved g' \<and> length (selectedCells g') \<ge> 1
            then submitWord upper dict True g' else g')
      else g)"

section \<open>The solver\<close>

definition startsWith :: "'a list \<Rightarrow> 'a list \<Rightarrow> bool" where
  "startsWith w p = (take (length p) w = p)"

text \<open>\<open>typeof commonWords !== 'undefined' && commonWords.some(w => w.startsWith(nextPrefix))\<close>\<close>

definition potential :: "'a dictionary \<Rightarrow> 'a list \<Rightarrow> bool" where
  "potential dict nextPrefix =
     (case dict of None \<Rightarrow> False | Some ws \<Rightarrow> list_ex (\<lambda>w. startsWith w nextPrefix) ws)"

text \<open>
  \<open>commonWords.includes(nextPrefix)\<close>; it is evaluated only after \<open>potential\<close>
  held, that is with a defined dictionary.
\<close>

definition includes_word :: "'a dictionary \<Rightarrow> 'a list \<Rightarrow> bool" where
  "includes_word dict w = (case dict of None \<Rightarrow> False | Some ws \<Rightarrow> w \<in> set ws)"

text \<open>\<open>visited[r][c] = b\<close> on the matrix of visited flags.\<close>

definition mark :: "bool list list \<Rightarrow> int \<Rightarrow> int \<Rightarrow> bool \<Rightarrow> bool list list" where
  "mark visited r c b = visited[nat r := (visited ! nat r)[nat c := b]]"

text \<open>The two nested loops over \<open>dr\<close> and \<open>dc\<close>, skipping the offset (0, 0).\<close>

definition neighbours :: "(int \<times> int) list" where
  "neighbours = [(dr, dc). dr \<leftarrow> [-1, 0, 1], dc \<leftarrow> [-1, 0, 1], \<not> (dr = 0 \<and> dc = 0)]"

text \<open>
  \<open>recursivelyFind\<close> threads the shared \<open>visited\<close> matrix and the \<open>found\<close> set
  through its calls. The first argument bounds the depth of the recursion: it counts how
  many nested calls may mark a cell and descend, and the result is \<open>None\<close> when a
  call would descend beyond it. A call that returns at its bounds check, its visited
  check or its prefix check needs no depth.
\<close>

fun recursivelyFind ::
  "nat \<Rightarrow> nat \<Rightarrow> 'a grid \<Rightarrow> 'a dictionary \<Rightarrow> int \<Rightarrow> int \<Rightarrow> 'a list
   \<Rightarrow> bool list list \<times> 'a list list \<Rightarrow> (bool list list \<times> 'a list list) option" where
  "recursivelyFind depth gsize grd dict r c currentPrefix (visited, found) =
     (if r < 0 \<or> r \<ge> int gsize \<or> c < 0 \<or> c \<ge> int gsize then Some (visited, found)
      else if visited ! nat r ! nat c then Some (visited, found)
      else
        let char = letterAt grd (r, c);
            nextPrefix = currentPrefix @ char
        in if \<not> potential dict nextPrefix then Some (visited, found)
           else
             (case depth of
                0 \<Rightarrow> None
              | Suc deeper \<Rightarrow>
                  let visited1 = mark visited r c True;
                      found1 = (if length nextPrefix \<ge> 3 \<and> includes_word dict nextPrefix
                                then set_add found nextPrefix else found)
                  in case fold (\<lambda>(dr, dc) acc.
                                 Option.bind acc
                                   (recursivelyFind deeper gsize grd dict (r + dr) (c + dc)
                                      nextPrefix))
                            neighbours (Some (visited1, found1)) of
                       None \<Rightarrow> None
                     | Some (visited2, found2) \<Rightarrow> Some (mark visited2 r c False, found2)))"

declare recursivelyFind.simps [simp del]

text \<open>The root cells in the order of the loops of \<open>solveGrid\<close>.\<close>

definition roots :: "nat \<Rightarrow> (int \<times> int) list" where
  "roots gsize = [(int r, int c). r \<leftarrow> [0..<gsize], c \<leftarrow> [0..<gsize]]"

definition solveGrid_depth :: "nat \<Rightarrow> nat \<Rightarrow> 'a grid \<Rightarrow> 'a dictionary \<Rightarrow> 'a list list option" where
  "solveGrid_depth depth gsize grd dict =
     (let found = [];
          visited = replicate gsize (replicate gsize False)
      in map_option snd
           (fold (\<lambda>(r, c) acc. Option.bind acc (recursivelyFind depth gsize grd dict r c []))
              (roots gsize) (Some (visited, found))))"

text \<open>
  \<open>solveGrid\<close> itself has no depth bound; the model runs the search with the number
  of cells as the bound, which is shown to be enough for every grid.
\<close>

definition solveGrid :: "nat \<Rightarrow> 'a grid \<Rightarrow> 'a dictionary \<Rightarrow> 'a list list option" where
  "solveGrid gsize grd dict = solveGrid_depth (gsize * gsize) gsize grd dict"

section \<open>The grid generator\<close>

text \<open>
  The dice, as strings of UTF-16 code units (natural numbers): 199 is C with cedilla,
  214 O with diaeresis, 220 U with diaeresis, 286 G with breve, 304 dotted capital I,
  350 S with cedilla.
\<close>

definition u :: "string \<Rightarrow> nat list" where
  "u s = map of_char s"

definition DICE :: "nat list list" where
  "DICE =
    [u ''AEEGmN'', u ''AAEOOT'', u ''AII'' @ [350] @ u ''ST'', u ''E'' @ [304, 304] @ u ''O'' @ [350] @ u ''T'',
     u ''AABFKP'', u ''EEGHNV'', u ''DE'' @ [304] @ u ''LRY'', u ''DE'' @ [304] @ u ''L'' @ [286] @ u ''R'',
     u ''BJKLMZ'', u ''EE'' @ [304] @ u ''NSU'', u ''EHRTVZ'', u ''HLNNRZ'',
     u ''IMOTU'' @ [220], u ''A'' @ [199] @ u ''ELRS'', u ''D'' @ [304] @ u ''STTY'', u ''O'' @ [214] @ u ''PRTY'']"

definition DICE_EXTENDED :: "nat list list" where
  "DICE_EXTENDED =
    [u ''AAAFRS'', u ''AAEEEE'', u ''AAFIRS'', u ''ADENNN'', u ''AEEEEM'',
     u ''AEEGMU'', u ''AEGMNN'', u ''AFIRSY'', u ''BJKQXZ'', u ''CCENST'',
     u ''CEIILT'', u ''CEILPT'', u ''CEIPST'', u ''DDHNOT'', u ''DHHLOR'',
     u ''DHLNOR'', u ''DDLNOR'', u ''EIIITT'', u ''EMOTTT'', u ''ENSSSU'',
     u ''FIPRSY'', u ''GORRVW'', u ''HIPRRY'', u ''NOOTUW'', u ''OOOTTU'']"

text \<open>
  The random choices of one call of \<open>buildGridData\<close>: \<open>shuffle\<close> is what
  \<open>sort(() => Math.random() - 0.5)\<close> makes of the array of dice, \<open>face k\<close> is
  \<open>Math.floor(Math.random() * 6)\<close> for the die at index \<open>k\<close>.
\<close>

record rand =
  shuffle :: "nat list list \<Rightarrow> nat list list"
  face :: "nat \<Rightarrow> nat"

text \<open>\<open>while (sourceDice.length < totalSorts) sourceDice = [...sourceDice, ...DICE]\<close>\<close>

function extendDice :: "nat \<Rightarrow> nat list list \<Rightarrow> nat list list" where
  "extendDice totalSorts sourceDice =
     (if length sourceDice < totalSorts then extendDice totalSorts (sourceDice @ DICE)
      else sourceDice)"
  by pat_completeness auto
termination
  by (relation "measure (\<lambda>(totalSorts, sourceDice). totalSorts - length sourceDice)")
     (auto simp: DICE_def)

declare extendDice.simps [simp del]

text \<open>\<open>charAt\<close> is the empty string outside the string.\<close>

definition charAt :: "'a list \<Rightarrow> nat \<Rightarrow> 'a list" where
  "charAt s k = (if k < length s then [s ! k] else [])"

text \<open>
  One cell of \<open>buildGridData\<close>: \<open>None\<close> is the TypeError of \<open>die.charAt\<close> on an
  undefined die (an index outside \<open>shuffledDice\<close>).
\<close>

definition buildCell ::
  "(nat list \<Rightarrow> nat list) \<Rightarrow> rand \<Rightarrow> nat list list \<Rightarrow> nat \<Rightarrow> nat list option" where
  "buildCell upper rnd shuffledDice dieIndex =
     (if dieIndex < length shuffledDice
      then Some (upper (charAt (shuffledDice ! dieIndex) (face rnd dieIndex)))
      else None)"

definition buildGridData ::
  "(nat list \<Rightarrow> nat list) \<Rightarrow> rand \<Rightarrow> nat \<Rightarrow> nat grid option" where
  "buildGridData upper rnd gsize =
     (let sourceDice = (if gsize = 5 then DICE @ DICE_EXTENDED else DICE);
          totalSorts = gsize * gsize;
          sourceDice = extendDice totalSorts sourceDice;
          shuffledDice = take totalSorts (shuffle rnd sourceDice)
      in those (map (\<lambda>i. those (map (\<lambda>j. buildCell upper rnd shuffledDice (i * gsize + j))
                                   [0..<gsize]))
                  [0..<gsize]))"

text \<open>What \<open>generateGrid\<close> writes to the console.\<close>

datatype log = Generated nat nat | CouldNotFind int

text \<open>
  The loop of \<open>generateGrid\<close> from attempt \<open>i\<close> on, with the thresholds as
  parameters. The result is the grid committed to \<open>this.grid\<close>, the number of
  candidate grids built, and the console message; \<open>None\<close> stands for an exception
  or a search that does not return.
\<close>

function generateGrid_from ::
  "nat \<Rightarrow> nat \<Rightarrow> (nat list \<Rightarrow> nat list) \<Rightarrow> nat dictionary \<Rightarrow> (nat \<Rightarrow> rand) \<Rightarrow> nat
   \<Rightarrow> nat \<Rightarrow> nat grid \<Rightarrow> int \<Rightarrow> (nat grid \<times> nat \<times> log) option" where
  "generateGrid_from minWords maxAttempts upper dict rnd gsize i bestGrid maxFound =
     (if i < maxAttempts then
        (case buildGridData upper (rnd i) gsize of
           None \<Rightarrow> None
         | Some grd \<Rightarrow>
            (case solveGrid gsize grd dict of
               None \<Rightarrow> None
             | Some possibleWords \<Rightarrow>
                 if length possibleWords \<ge> minWords
                 then Some (grd, i + 1, Generated (i + 1) (length possibleWords))
                 else if int (length possibleWords) > maxFound
                 then generateGrid_from minWords maxAttempts upper dict rnd gsize (i + 1)
                        grd (int (length possibleWords))
                 else generateGrid_from minWords maxAttempts upper dict rnd gsize (i + 1)
                        bestGrid maxFound))
      else Some (bestGrid, i, CouldNotFind maxFound))"
  by pat_completeness auto
termination
  by (relation "measure (\<lambda>(minWords, maxAttempts, upper, dict, rnd, gsize, i, bestGrid, maxFound).
        maxAttempts - i)") auto

declare generateGrid_from.simps [simp del]

definition MIN_WORDS :: nat where
  "MIN_WORDS = 15"

definition MAX_ATTEMPTS :: nat where
  "MAX_ATTEMPTS = 50"

definition generateGrid ::
  "(nat list \<Rightarrow> nat list) \<Rightarrow> nat dictionary \<Rightarrow> (nat \<Rightarrow> rand) \<Rightarrow> nat
   \<Rightarrow> (nat grid \<times> nat \<times> log) option" where
  "generateGrid upper dict rnd gsize =
     generateGrid_from MIN_WORDS MAX_ATTEMPTS upper dict rnd gsize 0 [] (- 1)"

section \<open>Example states\<close>

text \<open>
  A round on a 4 by 4 grid with a six-word dictionary. The words are in upper case
  already, so the examples pass the identity for \<open>toLocaleUpperCase\<close>.
\<close>

definition demoGrid :: "char grid" where
  "demoGrid =
     [[''C'', ''A'', ''T'', ''E''],
      [''O'', ''R'', ''S'', ''T''],
      [''D'', ''O'', ''G'', ''S''],
      [''N'', ''E'', ''W'', ''S'']]"

definition demoWords :: "char list list" where
  "demoWords = [''CAT'', ''CATS'', ''DOG'', ''DOGS'', ''ROT'', ''NEWS'']"

text \<open>The state after \<open>initGame\<close>: the round is active, nothing is selected.\<close>

definition demo :: "char game" where
  "demo = \<lparr>score = 0, foundWords = [], isGameActive = True, grid = demoGrid, gridSize = 4,
            selectedCells = [], currentWord = [], messageToast = None,
            isDragging = False, interactionMoved = False\<rparr>"

text \<open>The cells C, A, T of the first row were tapped one after the other.\<close>

definition demoCat :: "char game" where
  "demoCat = demo\<lparr>selectedCells := [(0, 0), (0, 1), (0, 2)], currentWord := ''CAT''\<rparr>"

text \<open>
  The timer ran out while C, A, T were selected: \<open>endGame\<close> has set
  \<open>isGameActive\<close> to false and left the selection as it was.
\<close>

definition demoEnded :: "char game" where
  "demoEnded = demoCat\<lparr>isGameActive := False\<rparr>"

section \<open>Legal paths and input sequences\<close>

text \<open>
  The Chebyshev distance of two cells, and a path whose consecutive cells are at
  distance exactly 1.
\<close>

definition chebyshev :: "cell \<Rightarrow> cell \<Rightarrow> int" where
  "chebyshev a b = max \<bar>fst a - fst b\<bar> \<bar>snd a - snd b\<bar>"

fun chained :: "cell list \<Rightarrow> bool" where
  "chained (a # b # p) = (chebyshev a b = 1 \<and> chained (b # p))"
| "chained p = True"

text \<open>
  The inputs of the selection path: a cell under the pointer (\<open>trySelectCell\<close>), a
  clear (\<open>clearSelection\<close>) and a backtrack (\<open>deselectLast\<close>).
\<close>

datatype input = CellInput cell | Clear | Backtrack

fun apply_input :: "'a game \<Rightarrow> input \<Rightarrow> 'a game" where
  "apply_input g (CellInput x) = trySelectCell g x"
| "apply_input g Clear = clearSelection g"
| "apply_input g Backtrack = deselectLast g"

text \<open>
  One press-to-release interval: the press on a cell, then the pointer moves. The two
  predicates say whether some move changed the number of selected cells (what
  \<open>handleInputMove\<close> records in \<open>interactionMoved\<close>), and whether some move added
  a cell to the path (the criterion of the specification: a cell beyond the first was
  added during the interval).
\<close>

definition drag :: "'a game \<Rightarrow> cell \<Rightarrow> cell option list \<Rightarrow> 'a game" where
  "drag g x es = foldl handleInputMove (handleInputStart g (Some x)) es"

fun selectionChanged :: "'a game \<Rightarrow> cell option list \<Rightarrow> bool" where
  "selectionChanged g [] = False"
| "selectionChanged g (e # es) =
     (length (selectedCells (handleInputMove g e)) \<noteq> length (selectedCells g)
      \<or> selectionChanged (handleInputMove g e) es)"

fun cellAdded :: "'a game \<Rightarrow> cell option list \<Rightarrow> bool" where
  "cellAdded g [] = False"
| "cellAdded g (e # es) =
     (length (selectedCells (handleInputMove g e)) > length (selectedCells g)
      \<or> cellAdded (handleInputMove g e) es)"

text \<open>
  The path after \<open>trySelectCell\<close> as a function of the path before and the cell
  (lemma \<open>selectedCells_trySelectCell\<close> below).
\<close>

definition pathAfter :: "cell list \<Rightarrow> cell \<Rightarrow> cell list" where
  "pathAfter p x =
     (if 2 \<le> length p \<and> p ! (length p - 2) = x then butlast p
      else if p = [] then [x]
      else if chebyshev x (last p) = 1 \<and> x \<notin> set p then p @ [x]
      else p)"

text \<open>The cells C and A were tapped one after the other (two presses, two releases).\<close>

definition demoTapped :: "char game" where
  "demoTapped =
     handleInputEnd (\<lambda>w. w) (Some demoWords)
       (drag (handleInputEnd (\<lambda>w. w) (Some demoWords) (drag demo (0, 0) [])) (0, 1) [])"

section \<open>Notions for the solver and the generator\<close>

text \<open>
  A cell of an \<open>n\<close> by \<open>n\<close> grid, the word read along a sequence of cells, and a
  legal path: no cell twice, consecutive cells at Chebyshev distance 1, every cell on
  the grid.
\<close>

definition inBounds :: "nat \<Rightarrow> cell \<Rightarrow> bool" where
  "inBounds n x = (0 \<le> fst x \<and> fst x < int n \<and> 0 \<le> snd x \<and> snd x < int n)"

definition wordOf :: "'a grid \<Rightarrow> cell list \<Rightarrow> 'a list" where
  "wordOf grd p = concat (map (letterAt grd) p)"

definition legalPath :: "nat \<Rightarrow> cell list \<Rightarrow> bool" where
  "legalPath n p = (distinct p \<and> chained p \<and> list_all (inBounds n) p)"

text \<open>A grid, and a matrix of visited flags, of \<open>n\<close> rows with \<open>n\<close> entries each.\<close>

definition wfGrid :: "nat \<Rightarrow> 'a grid \<Rightarrow> bool" where
  "wfGrid n grd = (length grd = n \<and> list_all (\<lambda>row. length row = n) grd)"

definition wfVisited :: "nat \<Rightarrow> bool list list \<Rightarrow> bool" where
  "wfVisited n v = (length v = n \<and> list_all (\<lambda>row. length row = n) v)"

text \<open>
  The cells on the grid that are not marked visited, and the words that continue the
  prefix \<open>pre\<close> along a path of such cells starting at the cell \<open>x\<close>: what one call
  of \<open>recursivelyFind\<close> adds to \<open>found\<close>.
\<close>

definition unvisited :: "nat \<Rightarrow> bool list list \<Rightarrow> cell set" where
  "unvisited n v = {x \<in> set (roots n). \<not> v ! nat (fst x) ! nat (snd x)}"

definition wordsFrom :: "'a grid \<Rightarrow> 'a dictionary \<Rightarrow> cell set \<Rightarrow> cell \<Rightarrow> 'a list \<Rightarrow> 'a list set" where
  "wordsFrom grd dict U x pre =
     {pre @ wordOf grd q | q.
        q \<noteq> [] \<and> hd q = x \<and> chained q \<and> distinct q \<and> set q \<subseteq> U
        \<and> 3 \<le> length (pre @ wordOf grd q) \<and> includes_word dict (pre @ wordOf grd q)}"

text \<open>
  The candidate grid of attempt \<open>i\<close> of the generator and its number of solvable
  words, as functions of the random choices.
\<close>

definition candidate :: "(nat list \<Rightarrow> nat list) \<Rightarrow> (nat \<Rightarrow> rand) \<Rightarrow> nat \<Rightarrow> nat \<Rightarrow> nat grid" where
  "candidate upper rnd n i = (case buildGridData upper (rnd i) n of Some g \<Rightarrow> g | None \<Rightarrow> [])"

definition wordCount ::
  "(nat list \<Rightarrow> nat list) \<Rightarrow> nat dictionary \<Rightarrow> (nat \<Rightarrow> rand) \<Rightarrow> nat \<Rightarrow> nat \<Rightarrow> nat" where
  "wordCount upper dict rnd n i =
     (case solveGrid n (candidate upper rnd n i) dict of Some ws \<Rightarrow> length ws | None \<Rightarrow> 0)"

text \<open>
  A populated grid: every cell is a non-empty string, the upper-cased face \<open>f\<close> (one of
  the six) of a die of the two pools.
\<close>

definition populated :: "(nat list \<Rightarrow> nat list) \<Rightarrow> nat grid \<Rightarrow> bool" where
  "populated upper g =
     list_all (list_all (\<lambda>cell. cell \<noteq> []
        \<and> list_ex (\<lambda>die. list_ex (\<lambda>f. cell = upper [die ! f]) [0..<6]) (DICE @ DICE_EXTENDED))) g"

text \<open>
  \<open>toLocaleUpperCase('tr-TR')\<close> for the examples, code unit by code unit: the dotted
  i (105) becomes the dotted capital I (304), the dotless i (305) becomes I, the other
  letters a to z and the Turkish letters with a mark become their capitals. Every other
  code unit is left as it is, which is what the locale does on the letters of the dice.
\<close>

definition upperUnit :: "nat \<Rightarrow> nat" where
  "upperUnit c =
     (if c = 105 then 304 else if c = 305 then 73
      else if 97 \<le> c \<and> c \<le> 122 then c - 32
      else if c = 231 then 199 else if c = 246 then 214 else if c = 252 then 220
      else if c = 287 then 286 else if c = 351 then 350
      else c)"

definition upperTR :: "nat list \<Rightarrow> nat list" where
  "upperTR s = map upperUnit s"

text \<open>
  Random choices for the examples: attempt \<open>i\<close> rotates the dice by \<open>i\<close> places and
  takes face \<open>(k + i) mod 6\<close> of the die at index \<open>k\<close>; and a small dictionary.
\<close>

definition demoRnd :: "nat \<Rightarrow> rand" where
  "demoRnd i = \<lparr>shuffle = rotate i, face = (\<lambda>k. (k + i) mod 6)\<rparr>"

definition demoDict :: "nat dictionary" where
  "demoDict = Some [u ''DEV'', u ''KEK'', u ''EDA'', u ''KENT'']"

section \<open>Scoring: the table and its values\<close>

lemma getScore_length: "getScore w =
  (if length w \<ge> 8 then 11 else if length w = 7 then 5 else if length w = 6 then 3
   else if length w = 5 then 2 else 1)"
  by (simp add: getScore_def SCORING_def or_default_def Let_def)

text \<open>
  C6: for a word of length at least 3 the score depends on the length only and is
  1 for lengths 3 and 4, 2 for length 5, 3 for length 6, 5 for length 7 and 11 from
  length 8 on; so a longer word never scores less.
\<close>

theorem getScore_table:
  "3 \<le> length w \<Longrightarrow>
     getScore w =
       (if length w \<le> 4 then 1 else if length w = 5 then 2 else if length w = 6 then 3
        else if length w = 7 then 5 else 11)
     \<and> (\<forall>v. length v = length w \<longrightarrow> getScore v = getScore w)
     \<and> (\<forall>v. length w \<le> length v \<longrightarrow> getScore w \<le> getScore v)"
  by (auto simp: getScore_length)

theorem getScore_table_witness:
  "3 \<le> length ''KALEM'' \<and> getScore ''KALEM'' = 2
   \<and> length ''KITAP'' = length ''KALEM'' \<and> getScore ''KITAP'' = getScore ''KALEM''
   \<and> length ''KALEM'' \<le> length ''KALEMLER'' \<and> getScore ''KALEM'' \<le> getScore ''KALEMLER''"
proof -
  have len: "3 \<le> length ''KALEM''" by simp
  note t = getScore_table [OF len]
  from t have "getScore ''KALEM'' =
      (if length ''KALEM'' \<le> 4 then 1 else if length ''KALEM'' = 5 then 2
       else if length ''KALEM'' = 6 then 3 else if length ''KALEM'' = 7 then 5 else 11)"
    by blast
  then have a: "getScore ''KALEM'' = 2" by simp
  from t have "length ''KITAP'' = length ''KALEM'' \<longrightarrow> getScore ''KITAP'' = getScore ''KALEM''"
    by blast
  then have b: "getScore ''KITAP'' = getScore ''KALEM''" by simp
  from t have "length ''KALEM'' \<le> length ''KALEMLER'' \<longrightarrow> getScore ''KALEM'' \<le> getScore ''KALEMLER''"
    by blast
  then have c: "getScore ''KALEM'' \<le> getScore ''KALEMLER''" by simp
  from a b c show ?thesis by simp
qed

section \<open>Submission\<close>

lemma clearSelection_fields [simp]:
  "selectedCells (clearSelection g) = []"
  "currentWord (clearSelection g) = []"
  "score (clearSelection g) = score g"
  "foundWords (clearSelection g) = foundWords g"
  "messageToast (clearSelection g) = messageToast g"
  "isGameActive (clearSelection g) = isGameActive g"
  "isDragging (clearSelection g) = isDragging g"
  "interactionMoved (clearSelection g) = interactionMoved g"
  "grid (clearSelection g) = grid g"
  by (simp_all add: clearSelection_def updateCurrentWord_def)

lemma getScore_pos: "1 \<le> getScore w"
  by (simp add: getScore_length)

text \<open>
  C10: a word of length 0, 1 or 2 has the score 1 in \<open>getScore\<close>, which has no guard
  of its own; such a word is never scored, because \<open>submitWord\<close> leaves the score and
  the found words as they are when the upper-cased word is shorter than 3.
\<close>

theorem getScore_below_table:
  "length w < 3 \<Longrightarrow>
     getScore w = 1
     \<and> (\<forall>upper dict isAuto g. upper (currentWord g) = w \<longrightarrow>
            score (submitWord upper dict isAuto g) = score g
            \<and> foundWords (submitWord upper dict isAuto g) = foundWords g)"
  by (auto simp: getScore_length submitWord_def Let_def showMessage_def)

theorem getScore_below_table_witness:
  "length ''AT'' < 3 \<and> getScore ''AT'' = 1
   \<and> score (submitWord (\<lambda>w. w) (Some demoWords) False (demo\<lparr>currentWord := ''AT''\<rparr>)) = 0
   \<and> foundWords (submitWord (\<lambda>w. w) (Some demoWords) False (demo\<lparr>currentWord := ''AT''\<rparr>)) = []"
proof -
  have short: "length ''AT'' < 3" by simp
  note t = getScore_below_table [OF short]
  from t have a: "getScore ''AT'' = 1" by blast
  from t have
    "score (submitWord (\<lambda>w. w) (Some demoWords) False (demo\<lparr>currentWord := ''AT''\<rparr>))
       = score (demo\<lparr>currentWord := ''AT''\<rparr>)
     \<and> foundWords (submitWord (\<lambda>w. w) (Some demoWords) False (demo\<lparr>currentWord := ''AT''\<rparr>))
       = foundWords (demo\<lparr>currentWord := ''AT''\<rparr>)"
    by simp
  with a short show ?thesis by (simp add: demo_def)
qed

lemma submitWord_inactive: "\<not> isGameActive g \<Longrightarrow> submitWord upper dict isAuto g = g"
  by (simp add: submitWord_def)

text \<open>
  C2, as the code has it: while the round is active, \<open>submitWord\<close> leaves the found
  words and the score as they are exactly when the upper-cased word is shorter than 3,
  or already found, or absent from the dictionary (\<open>commonWords\<close> is defined and does
  not include it); otherwise the word is added to the found words and the score grows by
  the word's score. In both cases the selection is cleared. While the round is not
  active, \<open>submitWord\<close> returns the state as it is: nothing is added, the score
  stays, and the selection is not cleared.
\<close>

theorem submitWord_outcome:
  "(isGameActive g \<longrightarrow>
      (let w = upper (currentWord g); g' = submitWord upper dict isAuto g;
           rejected = (length w < 3 \<or> w \<in> set (foundWords g)
                       \<or> (\<exists>ws. dict = Some ws \<and> w \<notin> set ws))
       in ((foundWords g' = foundWords g \<and> score g' = score g) = rejected)
          \<and> (\<not> rejected \<longrightarrow>
                foundWords g' = foundWords g @ [w] \<and> score g' = score g + getScore w)
          \<and> selectedCells g' = [] \<and> currentWord g' = []))
   \<and> (\<not> isGameActive g \<longrightarrow> submitWord upper dict isAuto g = g)"
proof (intro conjI impI)
  assume "isGameActive g"
  then show "let w = upper (currentWord g); g' = submitWord upper dict isAuto g;
           rejected = (length w < 3 \<or> w \<in> set (foundWords g)
                       \<or> (\<exists>ws. dict = Some ws \<and> w \<notin> set ws))
       in ((foundWords g' = foundWords g \<and> score g' = score g) = rejected)
          \<and> (\<not> rejected \<longrightarrow>
                foundWords g' = foundWords g @ [w] \<and> score g' = score g + getScore w)
          \<and> selectedCells g' = [] \<and> currentWord g' = []"
    using getScore_pos [of "upper (currentWord g)"]
    by (auto simp: submitWord_def Let_def notInDictionary_def showMessage_def addScore_def
          set_add_def split: option.splits)
next
  assume "\<not> isGameActive g"
  then show "submitWord upper dict isAuto g = g" by (rule submitWord_inactive)
qed

theorem submitWord_outcome_witness:
  "isGameActive demoCat
   \<and> foundWords (submitWord (\<lambda>w. w) (Some demoWords) False demoCat) = [''CAT'']
   \<and> score (submitWord (\<lambda>w. w) (Some demoWords) False demoCat) = 1
   \<and> selectedCells (submitWord (\<lambda>w. w) (Some demoWords) False demoCat) = []
   \<and> \<not> isGameActive demoEnded
   \<and> submitWord (\<lambda>w. w) (Some demoWords) False demoEnded = demoEnded"
proof -
  have act: "isGameActive demoCat" by (simp add: demoCat_def demo_def)
  have ended: "\<not> isGameActive demoEnded" by (simp add: demoEnded_def)
  from submitWord_outcome [of demoCat "\<lambda>w. w" "Some demoWords" False] act
  have a: "foundWords (submitWord (\<lambda>w. w) (Some demoWords) False demoCat) = [''CAT'']
   \<and> score (submitWord (\<lambda>w. w) (Some demoWords) False demoCat) = 1
   \<and> selectedCells (submitWord (\<lambda>w. w) (Some demoWords) False demoCat) = []"
    by (simp add: Let_def demoCat_def demo_def demoWords_def getScore_length)
  from submitWord_outcome [of demoEnded "\<lambda>w. w" "Some demoWords" False] ended
  have b: "submitWord (\<lambda>w. w) (Some demoWords) False demoEnded = demoEnded"
    by blast
  from act a ended b show ?thesis by blast
qed

text \<open>
  The claim C2 fails after the round has ended: the word CAT is long enough, not yet
  found and in the dictionary, but \<open>submitWord\<close> returns at its first line; the word
  is not added, the score stays, and the selection is not cleared.
\<close>

theorem submitWord_inactive_counterexample:
  "\<not> length (currentWord demoEnded) < 3
   \<and> currentWord demoEnded \<notin> set (foundWords demoEnded)
   \<and> currentWord demoEnded \<in> set demoWords
   \<and> foundWords (submitWord (\<lambda>w. w) (Some demoWords) False demoEnded) = foundWords demoEnded
   \<and> score (submitWord (\<lambda>w. w) (Some demoWords) False demoEnded) = score demoEnded
   \<and> selectedCells (submitWord (\<lambda>w. w) (Some demoWords) False demoEnded) = [(0, 0), (0, 1), (0, 2)]"
  by (simp add: submitWord_def demoEnded_def demoCat_def demo_def demoWords_def)

text \<open>
  C9, as the code has it: while the round is active and \<open>commonWords\<close> is undefined,
  every word of length at least 3 that is not yet found is accepted: it is added to the
  found words, its score is added, the points message is shown and the selection is
  cleared. While the round is not active, \<open>submitWord\<close> returns the state as it is
  and accepts nothing.
\<close>

theorem submitWord_no_dictionary:
  "(isGameActive g \<and> 3 \<le> length (upper (currentWord g))
      \<and> upper (currentWord g) \<notin> set (foundWords g) \<longrightarrow>
      (let w = upper (currentWord g); g' = submitWord upper None isAuto g
       in foundWords g' = foundWords g @ [w] \<and> score g' = score g + getScore w
          \<and> messageToast g' = Some (Puan (getScore w)) \<and> selectedCells g' = []))
   \<and> (\<not> isGameActive g \<longrightarrow> submitWord upper None isAuto g = g)"
proof (intro conjI impI)
  assume "isGameActive g \<and> 3 \<le> length (upper (currentWord g))
      \<and> upper (currentWord g) \<notin> set (foundWords g)"
  then show "let w = upper (currentWord g); g' = submitWord upper None isAuto g
       in foundWords g' = foundWords g @ [w] \<and> score g' = score g + getScore w
          \<and> messageToast g' = Some (Puan (getScore w)) \<and> selectedCells g' = []"
    by (auto simp: submitWord_def Let_def notInDictionary_def showMessage_def addScore_def
          set_add_def)
next
  assume "\<not> isGameActive g"
  then show "submitWord upper None isAuto g = g" by (rule submitWord_inactive)
qed

theorem submitWord_no_dictionary_witness:
  "isGameActive demoCat \<and> 3 \<le> length (currentWord demoCat)
   \<and> currentWord demoCat \<notin> set (foundWords demoCat)
   \<and> foundWords (submitWord (\<lambda>w. w) None True demoCat) = [''CAT'']
   \<and> score (submitWord (\<lambda>w. w) None True demoCat) = 1
   \<and> messageToast (submitWord (\<lambda>w. w) None True demoCat) = Some (Puan 1)
   \<and> selectedCells (submitWord (\<lambda>w. w) None True demoCat) = []
   \<and> \<not> isGameActive demoEnded
   \<and> submitWord (\<lambda>w. w) None True demoEnded = demoEnded"
proof -
  have pre: "isGameActive demoCat \<and> 3 \<le> length (currentWord demoCat)
      \<and> currentWord demoCat \<notin> set (foundWords demoCat)"
    by (simp add: demoCat_def demo_def)
  have ended: "\<not> isGameActive demoEnded" by (simp add: demoEnded_def)
  from submitWord_no_dictionary [of demoCat "\<lambda>w. w" True] pre
  have a: "foundWords (submitWord (\<lambda>w. w) None True demoCat) = [''CAT'']
   \<and> score (submitWord (\<lambda>w. w) None True demoCat) = 1
   \<and> messageToast (submitWord (\<lambda>w. w) None True demoCat) = Some (Puan 1)
   \<and> selectedCells (submitWord (\<lambda>w. w) None True demoCat) = []"
    by (simp add: Let_def demoCat_def demo_def getScore_length)
  from submitWord_no_dictionary [of demoEnded "\<lambda>w. w" True] ended
  have b: "submitWord (\<lambda>w. w) None True demoEnded = demoEnded"
    by blast
  from pre a ended b show ?thesis by blast
qed

text \<open>
  The claim C9 fails after the round has ended: without a dictionary, the word CAT of
  length 3, not yet found, is not accepted; the state stays as it is.
\<close>

theorem submitWord_no_dictionary_counterexample:
  "3 \<le> length (currentWord demoEnded)
   \<and> currentWord demoEnded \<notin> set (foundWords demoEnded)
   \<and> submitWord (\<lambda>w. w) None False demoEnded = demoEnded"
  by (simp add: submitWord_def demoEnded_def demoCat_def demo_def)

section \<open>The selection path: legality\<close>

lemma updateCurrentWord_fields [simp]:
  "selectedCells (updateCurrentWord g) = selectedCells g"
  "isGameActive (updateCurrentWord g) = isGameActive g"
  "isDragging (updateCurrentWord g) = isDragging g"
  "interactionMoved (updateCurrentWord g) = interactionMoved g"
  "grid (updateCurrentWord g) = grid g"
  by (simp_all add: updateCurrentWord_def)

lemma isCellSelected_iff: "isCellSelected g x = (x \<in> set (selectedCells g))"
  by (auto simp: isCellSelected_def list_ex_iff prod_eq_iff)

lemma adjacent_iff:
  "(\<bar>r - r'\<bar> \<le> 1 \<and> \<bar>c - c'\<bar> \<le> 1 \<and> \<not> (\<bar>r - r'\<bar> = 0 \<and> \<bar>c - c'\<bar> = 0))
   = (chebyshev (r, c) (r', c') = 1)"
  by (auto simp: chebyshev_def max_def)

text \<open>The path after \<open>trySelectCell\<close>, as a function of the path before.\<close>

lemma selectedCells_trySelectCell:
  "selectedCells (trySelectCell g x) = pathAfter (selectedCells g) x"
proof -
  have adj: "(\<bar>fst x - fst y\<bar> \<le> 1 \<and> \<bar>snd x - snd y\<bar> \<le> 1
              \<and> \<not> (\<bar>fst x - fst y\<bar> = 0 \<and> \<bar>snd x - snd y\<bar> = 0)) = (chebyshev x y = 1)" for y
    using adjacent_iff [of "fst x" "fst y" "snd x" "snd y"] by simp
  have pen: "(fst (p ! k) = fst x \<and> snd (p ! k) = snd x) = (p ! k = x)" for p :: "cell list" and k
    by (auto simp: prod_eq_iff)
  show ?thesis
    unfolding trySelectCell_def pathAfter_def Let_def pen adj
    by (auto simp: deselectLast_def selectCell_def isCellSelected_iff)
qed

lemma chained_snoc: "chained (p @ [x]) = (chained p \<and> (p = [] \<or> chebyshev (last p) x = 1))"
  by (induction p rule: chained.induct) auto

lemma chained_butlast: "chained p \<Longrightarrow> chained (butlast p)"
  by (induction p rule: chained.induct) auto

lemma chebyshev_sym: "chebyshev a b = chebyshev b a"
  by (simp add: chebyshev_def abs_minus_commute)

lemma trySelectCell_legal:
  assumes "distinct (selectedCells g)" "chained (selectedCells g)"
  shows "distinct (selectedCells (trySelectCell g x)) \<and> chained (selectedCells (trySelectCell g x))"
  using assms
  by (auto simp: selectedCells_trySelectCell pathAfter_def chained_snoc chained_butlast
        distinct_butlast chebyshev_sym)

lemma apply_input_legal:
  assumes "distinct (selectedCells g)" "chained (selectedCells g)"
  shows "distinct (selectedCells (apply_input g i)) \<and> chained (selectedCells (apply_input g i))"
proof (cases i)
  case (CellInput x)
  with assms show ?thesis by (simp add: trySelectCell_legal)
next
  case Clear
  then show ?thesis by simp
next
  case Backtrack
  with assms show ?thesis by (simp add: deselectLast_def distinct_butlast chained_butlast)
qed

lemma foldl_apply_input_legal:
  assumes "distinct (selectedCells g)" "chained (selectedCells g)"
  shows "distinct (selectedCells (foldl apply_input g is))
         \<and> chained (selectedCells (foldl apply_input g is))"
  using assms
proof (induction "is" arbitrary: g)
  case Nil
  then show ?case by simp
next
  case (Cons i "is")
  from apply_input_legal [OF Cons.prems, of i] show ?case
    by (simp add: Cons.IH)
qed

text \<open>An ignored cell changes nothing in the state.\<close>

lemma penultimate_adjacent:
  assumes "chained p" "2 \<le> length p"
  shows "chebyshev (p ! (length p - 2)) (last p) = 1"
  using assms
proof (induction p rule: chained.induct)
  case (1 a b p)
  show ?case
  proof (cases p)
    case Nil
    with "1.prems" show ?thesis by simp
  next
    case (Cons c q)
    with 1 show ?thesis by (simp add: nth_Cons')
  qed
qed simp_all

lemma trySelectCell_ignored:
  assumes "chained (selectedCells g)" "selectedCells g \<noteq> []"
    and "chebyshev x (last (selectedCells g)) \<noteq> 1
         \<or> (x \<in> set (selectedCells g)
            \<and> \<not> (2 \<le> length (selectedCells g)
                   \<and> x = selectedCells g ! (length (selectedCells g) - 2)))"
  shows "trySelectCell g x = g"
proof -
  let ?p = "selectedCells g"
  have no_back: "\<not> (2 \<le> length ?p \<and> ?p ! (length ?p - 2) = x)"
    using assms penultimate_adjacent [of ?p] by auto
  have no_add: "\<not> (chebyshev x (last ?p) = 1 \<and> x \<notin> set ?p)"
    using assms no_back by auto
  have adj: "(\<bar>fst x - fst y\<bar> \<le> 1 \<and> \<bar>snd x - snd y\<bar> \<le> 1
              \<and> \<not> (\<bar>fst x - fst y\<bar> = 0 \<and> \<bar>snd x - snd y\<bar> = 0)) = (chebyshev x y = 1)" for y
    using adjacent_iff [of "fst x" "fst y" "snd x" "snd y"] by simp
  have pen: "(fst (?p ! k) = fst x \<and> snd (?p ! k) = snd x) = (?p ! k = x)" for k
    by (auto simp: prod_eq_iff)
  from no_back no_add assms(2) show ?thesis
    unfolding trySelectCell_def Let_def pen adj
    by (auto simp: isCellSelected_iff)
qed

text \<open>
  C4: in every state reached from the empty path by cell inputs, clears and backtracks,
  the path has no cell twice and consecutive cells are at Chebyshev distance 1; and a
  cell that is not at distance 1 from the last cell, or that is in the path and is not
  its second-to-last cell, leaves the state as it is.
\<close>

theorem selection_path_legal:
  "selectedCells g = [] \<Longrightarrow>
     (let g' = foldl apply_input g inputs; p = selectedCells g'
      in distinct p \<and> chained p
         \<and> (\<forall>x. p \<noteq> []
                 \<and> (chebyshev x (last p) \<noteq> 1
                    \<or> (x \<in> set p \<and> \<not> (2 \<le> length p \<and> x = p ! (length p - 2))))
               \<longrightarrow> trySelectCell g' x = g'))"
proof -
  assume "selectedCells g = []"
  then have "distinct (selectedCells (foldl apply_input g inputs))
             \<and> chained (selectedCells (foldl apply_input g inputs))"
    by (intro foldl_apply_input_legal) simp_all
  then show ?thesis
    by (auto simp: Let_def intro!: trySelectCell_ignored)
qed

theorem selection_path_legal_witness:
  "selectedCells demo = []
   \<and> selectedCells (foldl apply_input demo
         [CellInput (0, 0), CellInput (1, 1), CellInput (3, 3), CellInput (1, 2), CellInput (1, 1),
          Backtrack, Clear, CellInput (2, 2), CellInput (2, 1)]) = [(2, 2), (2, 1)]
   \<and> distinct [(2, 2), (2, 1) :: cell] \<and> chained [(2, 2), (2, 1)]
   \<and> chebyshev (0, 0) (2, 1) \<noteq> 1
   \<and> trySelectCell (foldl apply_input demo
         [CellInput (0, 0), CellInput (1, 1), CellInput (3, 3), CellInput (1, 2), CellInput (1, 1),
          Backtrack, Clear, CellInput (2, 2), CellInput (2, 1)]) (0, 0)
       = foldl apply_input demo
         [CellInput (0, 0), CellInput (1, 1), CellInput (3, 3), CellInput (1, 2), CellInput (1, 1),
          Backtrack, Clear, CellInput (2, 2), CellInput (2, 1)]"
proof -
  let ?ins = "[CellInput (0, 0), CellInput (1, 1), CellInput (3, 3), CellInput (1, 2), CellInput (1, 1),
          Backtrack, Clear, CellInput (2, 2), CellInput (2, 1)]"
  have e: "selectedCells demo = []" by (simp add: demo_def)
  have p: "selectedCells (foldl apply_input demo ?ins) = [(2, 2), (2, 1)]"
    by (simp add: selectedCells_trySelectCell pathAfter_def chebyshev_def deselectLast_def e)
  have c: "chebyshev (0, 0) (2, 1) \<noteq> 1" by (simp add: chebyshev_def)
  from selection_path_legal [OF e, of ?ins] p c
  have "distinct [(2, 2), (2, 1) :: cell] \<and> chained [(2, 2), (2, 1)]
        \<and> trySelectCell (foldl apply_input demo ?ins) (0, 0) = foldl apply_input demo ?ins"
    by (simp add: Let_def)
  with e p c show ?thesis by simp
qed

text \<open>
  C5: on a path of at least 2 cells, the second-to-last cell as input removes the last
  cell and nothing else; in every other case no cell is removed, the path before is a
  prefix of the path after.
\<close>

theorem trySelectCell_backtrack:
  "(let p = selectedCells g; p' = selectedCells (trySelectCell g x)
    in (2 \<le> length p \<and> x = p ! (length p - 2)
          \<longrightarrow> p' = butlast p \<and> p = p' @ [last p] \<and> length p' = length p - 1)
       \<and> (\<not> (2 \<le> length p \<and> x = p ! (length p - 2)) \<longrightarrow> take (length p) p' = p))"
  by (auto simp: selectedCells_trySelectCell pathAfter_def)

theorem trySelectCell_backtrack_witness:
  "selectedCells demoCat = [(0, 0), (0, 1), (0, 2)]
   \<and> selectedCells (trySelectCell demoCat (0, 1)) = [(0, 0), (0, 1)]
   \<and> take (length (selectedCells demoCat)) (selectedCells (trySelectCell demoCat (1, 2)))
       = selectedCells demoCat"
proof -
  have p: "selectedCells demoCat = [(0, 0), (0, 1), (0, 2)]" by (simp add: demoCat_def)
  have i: "2 \<le> length (selectedCells demoCat)
           \<and> (0, 1) = selectedCells demoCat ! (length (selectedCells demoCat) - 2)"
    and j: "\<not> (2 \<le> length (selectedCells demoCat)
           \<and> (1, 2) = selectedCells demoCat ! (length (selectedCells demoCat) - 2))"
    by (simp_all add: p)
  from trySelectCell_backtrack [of demoCat "(0, 1)"] i
  have "selectedCells (trySelectCell demoCat (0, 1)) = butlast (selectedCells demoCat)"
    unfolding Let_def by blast
  then have a: "selectedCells (trySelectCell demoCat (0, 1)) = [(0, 0), (0, 1)]"
    by (simp add: p)
  from trySelectCell_backtrack [of demoCat "(1, 2)"] j
  have b: "take (length (selectedCells demoCat)) (selectedCells (trySelectCell demoCat (1, 2)))
          = selectedCells demoCat"
    unfolding Let_def by blast
  from p a b show ?thesis by blast
qed

section \<open>Press, drag and release\<close>

lemma trySelectCell_fields [simp]:
  "isGameActive (trySelectCell g x) = isGameActive g"
  "isDragging (trySelectCell g x) = isDragging g"
  "interactionMoved (trySelectCell g x) = interactionMoved g"
  by (simp_all add: trySelectCell_def Let_def deselectLast_def selectCell_def)

lemma handleInputMove_fields [simp]:
  "isGameActive (handleInputMove g e) = isGameActive g"
  "isDragging (handleInputMove g e) = isDragging g"
  by (simp_all add: handleInputMove_def Let_def split: option.splits)

lemma interactionMoved_handleInputMove:
  "interactionMoved (handleInputMove g e) =
     (interactionMoved g \<or> length (selectedCells (handleInputMove g e)) \<noteq> length (selectedCells g))"
  by (auto simp: handleInputMove_def Let_def split: option.splits)

lemma foldl_handleInputMove_fields [simp]:
  "isGameActive (foldl handleInputMove g es) = isGameActive g"
  "isDragging (foldl handleInputMove g es) = isDragging g"
  by (induction es arbitrary: g) simp_all

lemma interactionMoved_foldl:
  "interactionMoved (foldl handleInputMove g es) = (interactionMoved g \<or> selectionChanged g es)"
proof (induction es arbitrary: g)
  case Nil
  show ?case by simp
next
  case (Cons e es)
  show ?case
    using interactionMoved_handleInputMove [of g e] by (auto simp: Cons.IH)
qed

lemma trySelectCell_nonempty: "selectedCells (trySelectCell g x) \<noteq> []"
  by (auto simp: selectedCells_trySelectCell pathAfter_def butlast_conv_take)

lemma handleInputMove_nonempty:
  "selectedCells g \<noteq> [] \<Longrightarrow> selectedCells (handleInputMove g e) \<noteq> []"
  by (auto simp: handleInputMove_def Let_def trySelectCell_nonempty split: option.splits)

lemma foldl_handleInputMove_nonempty:
  "selectedCells g \<noteq> [] \<Longrightarrow> selectedCells (foldl handleInputMove g es) \<noteq> []"
  by (induction es arbitrary: g) (simp_all add: handleInputMove_nonempty)

lemma trySelectCell_same_length:
  "length (selectedCells (trySelectCell g x)) = length (selectedCells g) \<Longrightarrow> trySelectCell g x = g"
  by (auto simp: trySelectCell_def Let_def deselectLast_def selectCell_def split: if_splits)

lemma last_butlast_nth:
  assumes "2 \<le> length p"
  shows "last (butlast p) = p ! (length p - 2)" and "butlast p \<noteq> []"
proof -
  from assms obtain q a where p: "p = q @ [a]" by (cases p rule: rev_cases) auto
  with assms have q: "q \<noteq> []" by auto
  then have "last q = q ! (length q - 1)" by (rule last_conv_nth)
  moreover from q have "length q - 1 < length q" by (cases q) auto
  ultimately show "last (butlast p) = p ! (length p - 2)"
    by (simp add: p nth_append)
  from q show "butlast p \<noteq> []" by (simp add: p)
qed

lemma pathAfter_last:
  assumes "distinct q" "q \<noteq> []" "last q = x"
  shows "pathAfter q x = q"
proof -
  have "\<not> (2 \<le> length q \<and> q ! (length q - 2) = x)"
  proof
    assume a: "2 \<le> length q \<and> q ! (length q - 2) = x"
    from assms(2,3) have "q ! (length q - 1) = x" by (simp add: last_conv_nth)
    with a have "q ! (length q - 2) = q ! (length q - 1)" by simp
    moreover from a have "length q - 2 < length q" "length q - 1 < length q" by arith+
    ultimately have "length q - 2 = length q - 1"
      using assms(1) by (simp add: nth_eq_iff_index_eq)
    with a show False by arith
  qed
  moreover from assms(2,3) have "x \<in> set q" by auto
  ultimately show ?thesis using assms(2) by (auto simp: pathAfter_def)
qed

lemma pathAfter_twice:
  assumes "distinct p"
  shows "pathAfter (pathAfter p x) x = pathAfter p x"
proof -
  consider (backtrack) "2 \<le> length p \<and> p ! (length p - 2) = x"
    | (empty) "p = []"
    | (append) "\<not> (2 \<le> length p \<and> p ! (length p - 2) = x)" "p \<noteq> []"
        "chebyshev x (last p) = 1 \<and> x \<notin> set p"
    | (ignore) "pathAfter p x = p"
    by atomize_elim (auto simp: pathAfter_def)
  then show ?thesis
  proof cases
    case backtrack
    then have q: "pathAfter p x = butlast p" by (simp add: pathAfter_def)
    from backtrack have "last (butlast p) = x" "butlast p \<noteq> []"
      using last_butlast_nth [of p] by simp_all
    with assms show ?thesis unfolding q by (intro pathAfter_last distinct_butlast)
  next
    case empty
    then show ?thesis by (simp add: pathAfter_def chebyshev_def)
  next
    case append
    then have q: "pathAfter p x = p @ [x]" by (auto simp: pathAfter_def)
    from append assms have "distinct (p @ [x])" by simp
    then show ?thesis unfolding q by (rule pathAfter_last) simp_all
  next
    case ignore
    then show ?thesis by simp
  qed
qed

lemma trySelectCell_twice:
  assumes "distinct (selectedCells g)"
  shows "trySelectCell (trySelectCell g x) x = trySelectCell g x"
  by (rule trySelectCell_same_length) (simp add: selectedCells_trySelectCell pathAfter_twice [OF assms])

lemma handleInputStart_fields:
  assumes "isGameActive g"
  shows "isDragging (handleInputStart g (Some x))"
    and "\<not> interactionMoved (handleInputStart g (Some x))"
    and "isGameActive (handleInputStart g (Some x))"
    and "selectedCells (handleInputStart g (Some x)) \<noteq> []"
  using assms by (simp_all add: handleInputStart_def trySelectCell_nonempty)

lemma handleInputStart_again:
  assumes "isGameActive g" "distinct (selectedCells g)"
  shows "trySelectCell (handleInputStart g (Some x)) x = handleInputStart g (Some x)"
  using assms by (simp add: handleInputStart_def trySelectCell_twice)

lemma stationary_moves:
  assumes "trySelectCell g x = g" "\<forall>e\<in>set es. e = None \<or> e = Some x"
  shows "foldl handleInputMove g es = g \<and> \<not> selectionChanged g es"
  using assms(2)
proof (induction es)
  case Nil
  show ?case by simp
next
  case (Cons e es)
  then have "e = None \<or> e = Some x" by simp
  then have "handleInputMove g e = g"
    using assms(1) by (auto simp: handleInputMove_def Let_def)
  with Cons show ?case by simp
qed

text \<open>
  C8, as the code has it: after a press on a cell in an active round and any pointer
  moves, the release submits the path exactly when some move changed the number of
  selected cells (a cell was appended or the last cell was removed by a backtrack), and
  otherwise leaves the path selected. When the path before the press has no cell twice
  and every move is over the pressed cell or over no cell, no move changes the selection
  and the path is left as the press made it; so a submitted drag has been over a cell
  other than the pressed one.
\<close>

theorem release_submits:
  "isGameActive g \<Longrightarrow>
     (let g1 = handleInputStart g (Some x); g2 = drag g x es
      in handleInputEnd upper dict g2 =
           (if selectionChanged g1 es
            then submitWord upper dict True (g2\<lparr>isDragging := False\<rparr>)
            else g2\<lparr>isDragging := False\<rparr>)
         \<and> (distinct (selectedCells g) \<and> (\<forall>e\<in>set es. e = None \<or> e = Some x)
              \<longrightarrow> \<not> selectionChanged g1 es
                  \<and> handleInputEnd upper dict g2 = g1\<lparr>isDragging := False\<rparr>)
         \<and> (distinct (selectedCells g) \<and> selectionChanged g1 es
              \<longrightarrow> (\<exists>y. Some y \<in> set es \<and> y \<noteq> x)))"
proof -
  assume act: "isGameActive g"
  let ?g1 = "handleInputStart g (Some x)"
  let ?g2 = "drag g x es"
  note s = handleInputStart_fields [OF act, of x]
  have ne: "selectedCells ?g2 \<noteq> []"
    unfolding drag_def using s(4) by (rule foldl_handleInputMove_nonempty)
  then have len: "1 \<le> length (selectedCells ?g2)" by (cases "selectedCells ?g2") auto
  have moved: "interactionMoved ?g2 = selectionChanged ?g1 es"
    unfolding drag_def using s(2) by (simp add: interactionMoved_foldl)
  have dragging: "isDragging ?g2"
    unfolding drag_def using s(1) by simp
  have end_eq: "handleInputEnd upper dict ?g2 =
           (if selectionChanged ?g1 es
            then submitWord upper dict True (?g2\<lparr>isDragging := False\<rparr>)
            else ?g2\<lparr>isDragging := False\<rparr>)"
    using dragging moved len by (simp add: handleInputEnd_def Let_def)
  have stat: "\<not> selectionChanged ?g1 es \<and> handleInputEnd upper dict ?g2 = ?g1\<lparr>isDragging := False\<rparr>"
    if d: "distinct (selectedCells g)" and st: "\<forall>e\<in>set es. e = None \<or> e = Some x"
  proof -
    from handleInputStart_again [OF act d] st
    have "foldl handleInputMove ?g1 es = ?g1 \<and> \<not> selectionChanged ?g1 es"
      by (rule stationary_moves)
    with end_eq show ?thesis by (simp add: drag_def)
  qed
  have two: "\<exists>y. Some y \<in> set es \<and> y \<noteq> x"
    if d: "distinct (selectedCells g)" and ch: "selectionChanged ?g1 es"
  proof (rule ccontr)
    assume "\<not> (\<exists>y. Some y \<in> set es \<and> y \<noteq> x)"
    then have "\<forall>e\<in>set es. e = None \<or> e = Some x"
      by (metis option.exhaust)
    from stat [OF d this] ch show False by simp
  qed
  from end_eq stat two show ?thesis unfolding Let_def by blast
qed

lemmas tracker_defs =
  drag_def handleInputStart_def handleInputMove_def handleInputEnd_def trySelectCell_def
  selectCell_def deselectLast_def clearSelection_def updateCurrentWord_def isCellSelected_def
  letterAt_def submitWord_def showMessage_def Let_def

theorem release_submits_witness:
  "isGameActive demo
   \<and> selectionChanged (handleInputStart demo (Some (0, 0))) [Some (0, 1), None, Some (0, 2)]
   \<and> handleInputEnd (\<lambda>w. w) (Some demoWords) (drag demo (0, 0) [Some (0, 1), None, Some (0, 2)])
       = submitWord (\<lambda>w. w) (Some demoWords) True
           ((drag demo (0, 0) [Some (0, 1), None, Some (0, 2)])\<lparr>isDragging := False\<rparr>)
   \<and> foundWords
         (handleInputEnd (\<lambda>w. w) (Some demoWords) (drag demo (0, 0) [Some (0, 1), None, Some (0, 2)]))
       = [''CAT'']
   \<and> distinct (selectedCells demo)
   \<and> \<not> selectionChanged (handleInputStart demo (Some (0, 0))) [Some (0, 0), None]
   \<and> selectedCells
         (handleInputEnd (\<lambda>w. w) (Some demoWords) (drag demo (0, 0) [Some (0, 0), None]))
       = [(0, 0)]"
proof -
  have act: "isGameActive demo" by (simp add: demo_def)
  have d: "distinct (selectedCells demo)" by (simp add: demo_def)
  have ch: "selectionChanged (handleInputStart demo (Some (0, 0))) [Some (0, 1), None, Some (0, 2)]"
    by (simp add: demo_def demoGrid_def tracker_defs)
  have s1: "selectedCells (handleInputStart demo (Some (0, 0))) = [(0, 0)]"
    by (simp add: demo_def demoGrid_def tracker_defs)
  note a = release_submits [OF act, of "(0, 0)" "[Some (0, 1), None, Some (0, 2)]" "\<lambda>w. w" "Some demoWords"]
  note b = release_submits [OF act, of "(0, 0)" "[Some (0, 0), None]" "\<lambda>w. w" "Some demoWords"]
  from a ch have e1: "handleInputEnd (\<lambda>w. w) (Some demoWords) (drag demo (0, 0) [Some (0, 1), None, Some (0, 2)])
       = submitWord (\<lambda>w. w) (Some demoWords) True
           ((drag demo (0, 0) [Some (0, 1), None, Some (0, 2)])\<lparr>isDragging := False\<rparr>)"
    unfolding Let_def by (simp del: selectionChanged.simps)
  have f: "foundWords (submitWord (\<lambda>w. w) (Some demoWords) True
           ((drag demo (0, 0) [Some (0, 1), None, Some (0, 2)])\<lparr>isDragging := False\<rparr>)) = [''CAT'']"
    by (simp add: demo_def demoGrid_def demoWords_def tracker_defs notInDictionary_def addScore_def set_add_def)
  have st: "\<forall>e\<in>set [Some (0, 0), None]. e = None \<or> e = Some ((0, 0) :: cell)" by simp
  from b d st have e2: "\<not> selectionChanged (handleInputStart demo (Some (0, 0))) [Some (0, 0), None]
     \<and> handleInputEnd (\<lambda>w. w) (Some demoWords) (drag demo (0, 0) [Some (0, 0), None])
         = (handleInputStart demo (Some (0, 0)))\<lparr>isDragging := False\<rparr>"
    unfolding Let_def by blast
  from e2 s1 have e3: "selectedCells
         (handleInputEnd (\<lambda>w. w) (Some demoWords) (drag demo (0, 0) [Some (0, 0), None])) = [(0, 0)]"
    by simp
  from e1 f have e4: "foundWords
         (handleInputEnd (\<lambda>w. w) (Some demoWords) (drag demo (0, 0) [Some (0, 1), None, Some (0, 2)]))
       = [''CAT'']" by simp
  from act d ch e1 e4 e2 e3 show ?thesis by blast
qed

lemma demoTapped_eq:
  "demoTapped = demo\<lparr>selectedCells := [(0, 0), (0, 1)], currentWord := ''CA''\<rparr>"
  by (simp add: demoTapped_def demo_def demoGrid_def tracker_defs)

text \<open>
  The claim C8 fails in both directions. With C and A selected by two taps, a press on
  T and a move back to A adds no cell during the move (the move removes T again), yet
  the release submits the path. And on the empty path a press on the cell (0, 0) and a
  move to the cell (3, 3), a second cell that is not adjacent, changes nothing: the
  release does not submit and the pressed cell stays selected.
\<close>

theorem release_counterexample:
  "selectedCells demoTapped = [(0, 0), (0, 1)]
   \<and> \<not> cellAdded (handleInputStart demoTapped (Some (0, 2))) [Some (0, 1)]
   \<and> handleInputEnd (\<lambda>w. w) (Some demoWords) (drag demoTapped (0, 2) [Some (0, 1)])
       = submitWord (\<lambda>w. w) (Some demoWords) True
           ((drag demoTapped (0, 2) [Some (0, 1)])\<lparr>isDragging := False\<rparr>)
   \<and> selectedCells (drag demoTapped (0, 2) [Some (0, 1)]) = [(0, 0), (0, 1)]
   \<and> selectedCells
         (handleInputEnd (\<lambda>w. w) (Some demoWords) (drag demoTapped (0, 2) [Some (0, 1)])) = []
   \<and> (0, 0) \<noteq> ((3, 3) :: cell)
   \<and> handleInputEnd (\<lambda>w. w) (Some demoWords) (drag demo (0, 0) [Some (3, 3)])
       = (drag demo (0, 0) [Some (3, 3)])\<lparr>isDragging := False\<rparr>
   \<and> selectedCells
         (handleInputEnd (\<lambda>w. w) (Some demoWords) (drag demo (0, 0) [Some (3, 3)])) = [(0, 0)]"
  by (simp add: demoTapped_eq demo_def demoGrid_def tracker_defs)

section \<open>The solver: visited cells and reachable words\<close>

lemma set_roots: "set (roots n) = {x. inBounds n x}"
proof (intro set_eqI iffI)
  fix x assume "x \<in> set (roots n)"
  then show "x \<in> {x. inBounds n x}" by (auto simp: roots_def inBounds_def)
next
  fix x :: cell assume "x \<in> {x. inBounds n x}"
  then have b: "0 \<le> fst x" "fst x < int n" "0 \<le> snd x" "snd x < int n"
    by (simp_all add: inBounds_def)
  then have "nat (fst x) < n" "nat (snd x) < n" by simp_all
  moreover from b have "x = (int (nat (fst x)), int (nat (snd x)))" by (simp add: prod_eq_iff)
  ultimately have "\<exists>i<n. \<exists>j<n. x = (int i, int j)" by blast
  then obtain i j where "i < n" "j < n" "x = (int i, int j)" by blast
  then have "x \<in> (\<lambda>j. (int i, int j)) ` {0..<n}" "i \<in> {0..<n}" by auto
  then show "x \<in> set (roots n)"
    unfolding roots_def by auto
qed

lemma inBounds_nat: "inBounds n x \<Longrightarrow> nat (fst x) < n \<and> nat (snd x) < n"
  by (auto simp: inBounds_def)

lemma finite_unvisited: "finite (unvisited n v)"
  by (simp add: unvisited_def)

lemma card_roots: "card (set (roots n)) \<le> n * n"
proof -
  have "length (roots n) = n * n"
    by (simp add: roots_def length_concat comp_def sum_list_triv)
  with card_length [of "roots n"] show ?thesis by simp
qed

lemma card_unvisited: "card (unvisited n v) \<le> n * n"
proof -
  have "unvisited n v \<subseteq> set (roots n)" by (auto simp: unvisited_def)
  then have "card (unvisited n v) \<le> card (set (roots n))" by (intro card_mono) simp_all
  with card_roots [of n] show ?thesis by simp
qed

lemma wfVisited_mark: "wfVisited n v \<Longrightarrow> wfVisited n (mark v r c b)"
proof -
  assume wf: "wfVisited n v"
  show ?thesis
  proof (cases "nat r < length v")
    case True
    with wf have "length (v ! nat r) = n" by (simp add: wfVisited_def list_all_length)
    with wf show ?thesis
      by (auto simp: wfVisited_def mark_def list_all_iff dest!: subsetD [OF set_update_subset_insert])
  next
    case False
    with wf show ?thesis by (simp add: mark_def list_update_beyond)
  qed
qed

lemma mark_lookup:
  assumes "wfVisited n v" "inBounds n (r, c)" "inBounds n (r', c')"
  shows "mark v r c b ! nat r' ! nat c' = (if r' = r \<and> c' = c then b else v ! nat r' ! nat c')"
proof -
  from assms inBounds_nat [of n "(r, c)"] inBounds_nat [of n "(r', c')"]
  have len: "nat r < length v" "nat r' < length v" and c: "nat c < n" "nat c' < n"
    by (simp_all add: wfVisited_def)
  with assms(1) have rows: "length (v ! nat r) = n" "length (v ! nat r') = n"
    by (simp_all add: wfVisited_def list_all_length)
  from assms have eqr: "(nat r' = nat r) = (r' = r)" and eqc: "(nat c' = nat c) = (c' = c)"
    by (auto simp: inBounds_def)
  show ?thesis
    using len rows c eqr eqc
    by (auto simp: mark_def nth_list_update)
qed

lemma unvisited_mark_True:
  assumes "wfVisited n v" "inBounds n (r, c)"
  shows "unvisited n (mark v r c True) = unvisited n v - {(r, c)}"
  by (auto simp: unvisited_def set_roots mark_lookup [OF assms] split: if_splits)

lemma mark_restore:
  assumes "wfVisited n v" "inBounds n (r, c)" "\<not> v ! nat r ! nat c"
  shows "mark (mark v r c True) r c False = v"
proof -
  from assms inBounds_nat [of n "(r, c)"] have len: "nat r < length v"
    by (simp add: wfVisited_def)
  have "(v ! nat r)[nat c := False] = v ! nat r"
    using assms(3) list_update_id [of "v ! nat r" "nat c"] by simp
  with len show ?thesis by (simp add: mark_def)
qed

lemma king_move:
  "(max \<bar>a\<bar> \<bar>b\<bar> = 1) = (- 1 \<le> a \<and> a \<le> 1 \<and> - 1 \<le> b \<and> b \<le> 1 \<and> \<not> (a = 0 \<and> b = 0))"
  for a b :: int
  by arith

lemma neighbours_list:
  "neighbours = [(-1, -1), (-1, 0), (-1, 1), (0, -1), (0, 1), (1, -1), (1, 0), (1, 1)]"
  by (simp add: neighbours_def)

lemma set_neighbours: "((a, b) \<in> set neighbours) = (max \<bar>a\<bar> \<bar>b\<bar> = 1)"
proof -
  show ?thesis
    unfolding king_move neighbours_list
    by (simp only: set_simps insert_iff empty_iff prod.inject) arith
qed

lemma neighbour_iff:
  "(chebyshev (r, c) y = 1) = (\<exists>d\<in>set neighbours. y = (r + fst d, c + snd d))"
proof
  assume "chebyshev (r, c) y = 1"
  then have "max \<bar>fst y - r\<bar> \<bar>snd y - c\<bar> = 1"
    by (simp add: chebyshev_def abs_minus_commute)
  then have "(fst y - r, snd y - c) \<in> set neighbours" by (simp only: set_neighbours)
  moreover have "y = (r + fst (fst y - r, snd y - c), c + snd (fst y - r, snd y - c))"
    by (simp add: prod_eq_iff)
  ultimately show "\<exists>d\<in>set neighbours. y = (r + fst d, c + snd d)" by blast
next
  assume "\<exists>d\<in>set neighbours. y = (r + fst d, c + snd d)"
  then obtain a b where "(a, b) \<in> set neighbours" "y = (r + a, c + b)" by auto
  then show "chebyshev (r, c) y = 1"
    by (simp add: set_neighbours chebyshev_def)
qed

lemma wordOf_Cons: "wordOf grd (x # q) = letterAt grd x @ wordOf grd q"
  by (simp add: wordOf_def)

lemma chained_Cons: "q \<noteq> [] \<Longrightarrow> chained (x # q) = (chebyshev x (hd q) = 1 \<and> chained q)"
  by (cases q) simp_all

lemma wordsFrom_outside: "x \<notin> U \<Longrightarrow> wordsFrom grd dict U x pre = {}"
proof -
  assume out: "x \<notin> U"
  have False if "q \<noteq> []" "hd q = x" "set q \<subseteq> U" for q
    using that out hd_in_set [of q] by auto
  then show ?thesis unfolding wordsFrom_def by blast
qed

lemma wordsFrom_pruned:
  assumes "\<not> potential dict (pre @ letterAt grd x)"
  shows "wordsFrom grd dict U x pre = {}"
proof -
  have False if q: "q \<noteq> []" "hd q = x" and w: "includes_word dict (pre @ wordOf grd q)" for q
  proof -
    from q obtain q' where "q = x # q'" by (cases q) auto
    then have "startsWith (pre @ wordOf grd q) (pre @ letterAt grd x)"
      by (simp add: startsWith_def wordOf_Cons)
    with w have "potential dict (pre @ letterAt grd x)"
      by (auto simp: potential_def includes_word_def list_ex_iff split: option.splits)
    with assms show False by simp
  qed
  then show ?thesis unfolding wordsFrom_def by blast
qed

lemma wordsFrom_step:
  assumes "x \<in> U"
  shows "wordsFrom grd dict U x pre =
           (if 3 \<le> length (pre @ letterAt grd x) \<and> includes_word dict (pre @ letterAt grd x)
            then {pre @ letterAt grd x} else {})
           \<union> (\<Union>d\<in>set neighbours.
                wordsFrom grd dict (U - {x}) (fst x + fst d, snd x + snd d) (pre @ letterAt grd x))"
    (is "?L = ?here \<union> ?rest")
proof (intro set_eqI iffI)
  fix w assume "w \<in> ?L"
  then obtain q where q: "q \<noteq> []" "hd q = x" "chained q" "distinct q" "set q \<subseteq> U"
    and good: "3 \<le> length w" "includes_word dict w" and w: "w = pre @ wordOf grd q"
    unfolding wordsFrom_def by blast
  from q obtain q' where qq: "q = x # q'" by (cases q) auto
  show "w \<in> ?here \<union> ?rest"
  proof (cases "q' = []")
    case True
    with qq w good show ?thesis by (simp add: wordOf_def)
  next
    case False
    with q qq have adj: "chebyshev x (hd q') = 1" and ch: "chained q'"
      by (simp_all add: chained_Cons)
    from adj obtain d where d: "d \<in> set neighbours" "hd q' = (fst x + fst d, snd x + snd d)"
      using neighbour_iff [of "fst x" "snd x" "hd q'"] by auto
    from q qq have "distinct q'" "set q' \<subseteq> U - {x}" by auto
    with False ch good w qq d(2)
    have "w \<in> wordsFrom grd dict (U - {x}) (fst x + fst d, snd x + snd d) (pre @ letterAt grd x)"
      unfolding wordsFrom_def by (auto simp: wordOf_Cons)
    with d(1) show ?thesis by blast
  qed
next
  fix w assume "w \<in> ?here \<union> ?rest"
  then consider (here) "w \<in> ?here" | (rest) "w \<in> ?rest" by blast
  then show "w \<in> ?L"
  proof cases
    case here
    then have "w = pre @ wordOf grd [x]" "3 \<le> length w" "includes_word dict w"
      by (auto simp: wordOf_def split: if_splits)
    with assms show ?thesis
      unfolding wordsFrom_def by (intro CollectI exI [of _ "[x]"]) simp
  next
    case rest
    then obtain d q' where d: "d \<in> set neighbours"
      and q': "q' \<noteq> []" "hd q' = (fst x + fst d, snd x + snd d)" "chained q'" "distinct q'"
        "set q' \<subseteq> U - {x}"
      and good: "3 \<le> length w" "includes_word dict w"
      and w: "w = (pre @ letterAt grd x) @ wordOf grd q'"
      unfolding wordsFrom_def by blast
    from d q'(2) have "chebyshev x (hd q') = 1"
      using neighbour_iff [of "fst x" "snd x" "hd q'"] by auto
    with q' have "chained (x # q')" "distinct (x # q')" "set (x # q') \<subseteq> U"
      using assms by (auto simp: chained_Cons)
    moreover from w have "w = pre @ wordOf grd (x # q')" by (simp add: wordOf_Cons)
    ultimately show ?thesis
      using good unfolding wordsFrom_def by (intro CollectI exI [of _ "x # q'"]) simp
  qed
qed

lemma set_set_add: "set (set_add s x) = insert x (set s)"
  by (auto simp: set_add_def)

lemma distinct_set_add: "distinct s \<Longrightarrow> distinct (set_add s x)"
  by (simp add: set_add_def)

lemma fold_recursivelyFind:
  assumes step: "\<And>r c f. \<exists>f'. recursivelyFind d n grd dict r c pre (v, f) = Some (v, f')
                    \<and> set f' = set f \<union> wordsFrom grd dict U (r, c) pre
                    \<and> (distinct f \<longrightarrow> distinct f')"
  shows "\<exists>f'. fold (\<lambda>(r, c) acc. Option.bind acc (recursivelyFind d n grd dict r c pre)) cs
                 (Some (v, f)) = Some (v, f')
              \<and> set f' = set f \<union> (\<Union>x\<in>set cs. wordsFrom grd dict U x pre)
              \<and> (distinct f \<longrightarrow> distinct f')"
proof (induction cs arbitrary: f)
  case Nil
  show ?case by simp
next
  case (Cons x cs)
  obtain r c where x: "x = (r, c)" by (cases x)
  from step [of r c f] obtain f1
    where f1: "recursivelyFind d n grd dict r c pre (v, f) = Some (v, f1)"
      "set f1 = set f \<union> wordsFrom grd dict U (r, c) pre" "distinct f \<longrightarrow> distinct f1"
    by blast
  from Cons.IH [of f1] obtain f2
    where f2: "fold (\<lambda>(r, c) acc. Option.bind acc (recursivelyFind d n grd dict r c pre)) cs
                 (Some (v, f1)) = Some (v, f2)"
      "set f2 = set f1 \<union> (\<Union>x\<in>set cs. wordsFrom grd dict U x pre)" "distinct f1 \<longrightarrow> distinct f2"
    by blast
  have "fold (\<lambda>(r, c) acc. Option.bind acc (recursivelyFind d n grd dict r c pre)) (x # cs)
          (Some (v, f)) = Some (v, f2)"
    by (simp add: x f1(1) f2(1))
  moreover have "set f2 = set f \<union> (\<Union>x\<in>set (x # cs). wordsFrom grd dict U x pre)"
    using f1(2) f2(2) x by auto
  moreover have "distinct f \<longrightarrow> distinct f2" using f1(3) f2(3) by blast
  ultimately show ?case by blast
qed

lemma fold_neighbours:
  "fold (\<lambda>(dr, dc) acc. Option.bind acc (recursivelyFind d n grd dict (r + dr) (c + dc) pre))
     neighbours s
   = fold (\<lambda>(r', c') acc. Option.bind acc (recursivelyFind d n grd dict r' c' pre))
       (map (\<lambda>d. (r + fst d, c + snd d)) neighbours) s"
proof -
  have "(\<lambda>(dr, dc) acc. Option.bind acc (recursivelyFind d n grd dict (r + dr) (c + dc) pre))
        = (\<lambda>(r', c') acc. Option.bind acc (recursivelyFind d n grd dict r' c' pre))
            \<circ> (\<lambda>d. (r + fst d, c + snd d))"
    by (simp add: fun_eq_iff)
  then show ?thesis by (simp only: fold_map)
qed

lemma recursivelyFind_early:
  assumes "r < 0 \<or> r \<ge> int n \<or> c < 0 \<or> c \<ge> int n \<or> v ! nat r ! nat c
           \<or> \<not> potential dict (pre @ letterAt grd (r, c))"
  shows "recursivelyFind d n grd dict r c pre (v, f) = Some (v, f)"
  using assms by (subst recursivelyFind.simps) (auto simp: Let_def)

lemma recursivelyFind_descend:
  assumes "\<not> (r < 0 \<or> r \<ge> int n \<or> c < 0 \<or> c \<ge> int n)" "\<not> v ! nat r ! nat c"
    "potential dict (pre @ letterAt grd (r, c))"
  shows "recursivelyFind (Suc d) n grd dict r c pre (v, f) =
           (case fold (\<lambda>(dr, dc) acc.
                         Option.bind acc
                           (recursivelyFind d n grd dict (r + dr) (c + dc) (pre @ letterAt grd (r, c))))
                   neighbours
                   (Some (mark v r c True,
                          if 3 \<le> length (pre @ letterAt grd (r, c))
                             \<and> includes_word dict (pre @ letterAt grd (r, c))
                          then set_add f (pre @ letterAt grd (r, c)) else f)) of
              None \<Rightarrow> None
            | Some (visited2, found2) \<Rightarrow> Some (mark visited2 r c False, found2))"
  using assms by (subst recursivelyFind.simps) (simp add: Let_def split del: if_split)

lemma recursivelyFind_nothing:
  assumes "(r, c) \<notin> unvisited n v \<or> \<not> potential dict (pre @ letterAt grd (r, c))"
  shows "recursivelyFind d n grd dict r c pre (v, f) = Some (v, f)
         \<and> wordsFrom grd dict (unvisited n v) (r, c) pre = {}"
proof -
  from assms have "r < 0 \<or> r \<ge> int n \<or> c < 0 \<or> c \<ge> int n \<or> v ! nat r ! nat c
           \<or> \<not> potential dict (pre @ letterAt grd (r, c))"
    by (auto simp: unvisited_def set_roots inBounds_def)
  then have "recursivelyFind d n grd dict r c pre (v, f) = Some (v, f)"
    by (rule recursivelyFind_early)
  moreover from assms have "wordsFrom grd dict (unvisited n v) (r, c) pre = {}"
    using wordsFrom_outside wordsFrom_pruned by metis
  ultimately show ?thesis by simp
qed

lemma recursivelyFind_result:
  assumes "wfVisited n v" "card (unvisited n v) \<le> d"
  shows "\<exists>f'. recursivelyFind d n grd dict r c pre (v, f) = Some (v, f')
              \<and> set f' = set f \<union> wordsFrom grd dict (unvisited n v) (r, c) pre
              \<and> (distinct f \<longrightarrow> distinct f')"
  using assms
proof (induction d arbitrary: r c pre v f)
  case 0
  then have "unvisited n v = {}" using finite_unvisited [of n v] by simp
  then have "(r, c) \<notin> unvisited n v" by simp
  with recursivelyFind_nothing [of r c n v dict pre grd 0 f] show ?case by simp
next
  case (Suc d)
  let ?U = "unvisited n v"
  let ?np = "pre @ letterAt grd (r, c)"
  show ?case
  proof (cases "(r, c) \<in> ?U \<and> potential dict ?np")
    case False
    with recursivelyFind_nothing [of r c n v dict pre grd "Suc d" f] show ?thesis by auto
  next
    case True
    then have inU: "(r, c) \<in> ?U" and pot: "potential dict ?np" by simp_all
    from inU have ib: "inBounds n (r, c)" and nv: "\<not> v ! nat r ! nat c"
      by (simp_all add: unvisited_def set_roots)
    from ib have inb: "\<not> (r < 0 \<or> r \<ge> int n \<or> c < 0 \<or> c \<ge> int n)"
      by (auto simp: inBounds_def)
    let ?v1 = "mark v r c True"
    let ?f1 = "if 3 \<le> length ?np \<and> includes_word dict ?np then set_add f ?np else f"
    let ?cs = "map (\<lambda>d. (r + fst d, c + snd d)) neighbours"
    from Suc.prems(1) have wf1: "wfVisited n ?v1" by (rule wfVisited_mark)
    have U1: "unvisited n ?v1 = ?U - {(r, c)}"
      using Suc.prems(1) ib by (rule unvisited_mark_True)
    have "card (unvisited n ?v1) < card ?U"
      unfolding U1 using inU finite_unvisited by (intro card_Diff1_less)
    with Suc.prems(2) have small: "card (unvisited n ?v1) \<le> d" by simp
    have step: "\<exists>f'. recursivelyFind d n grd dict r' c' ?np (?v1, f0) = Some (?v1, f')
                 \<and> set f' = set f0 \<union> wordsFrom grd dict (unvisited n ?v1) (r', c') ?np
                 \<and> (distinct f0 \<longrightarrow> distinct f')" for r' c' f0
      using wf1 small by (rule Suc.IH)
    from fold_recursivelyFind [where cs = ?cs and f = ?f1, OF step]
    obtain f2 where f2:
      "fold (\<lambda>(r', c') acc. Option.bind acc (recursivelyFind d n grd dict r' c' ?np)) ?cs
         (Some (?v1, ?f1)) = Some (?v1, f2)"
      "set f2 = set ?f1 \<union> (\<Union>x\<in>set ?cs. wordsFrom grd dict (unvisited n ?v1) x ?np)"
      "distinct ?f1 \<longrightarrow> distinct f2"
      by blast
    have restore: "mark ?v1 r c False = v"
      using Suc.prems(1) ib nv by (rule mark_restore)
    have res: "recursivelyFind (Suc d) n grd dict r c pre (v, f) = Some (v, f2)"
      unfolding recursivelyFind_descend [OF inb nv pot] fold_neighbours f2(1)
      by (simp add: restore)
    have words: "set f2 = set f \<union> wordsFrom grd dict ?U (r, c) pre"
      unfolding f2(2) wordsFrom_step [OF inU] U1
      by (auto simp: set_set_add)
    have "distinct f \<longrightarrow> distinct f2"
      using f2(3) by (simp add: distinct_set_add split: if_splits)
    with res words show ?thesis by blast
  qed
qed

lemma wfVisited_replicate: "wfVisited n (replicate n (replicate n False))"
  by (simp add: wfVisited_def list_all_iff)

lemma unvisited_replicate: "unvisited n (replicate n (replicate n False)) = {x. inBounds n x}"
proof -
  have "\<not> replicate n (replicate n False) ! nat (fst x) ! nat (snd x)" if "inBounds n x" for x
    using inBounds_nat [OF that] by simp
  then show ?thesis by (auto simp: unvisited_def set_roots)
qed

lemma wordsFrom_all:
  "(\<Union>x\<in>{x. inBounds n x}. wordsFrom grd dict {x. inBounds n x} x []) =
     {w. 3 \<le> length w \<and> includes_word dict w \<and> (\<exists>p. legalPath n p \<and> wordOf grd p = w)}"
  (is "?L = ?R")
proof (intro set_eqI iffI)
  fix w assume "w \<in> ?L"
  then obtain q where "chained q" "distinct q" "set q \<subseteq> {x. inBounds n x}"
    "3 \<le> length w" "includes_word dict w" "w = wordOf grd q"
    unfolding wordsFrom_def by auto
  then have "legalPath n q \<and> wordOf grd q = w \<and> 3 \<le> length w \<and> includes_word dict w"
    by (auto simp: legalPath_def list_all_iff)
  then show "w \<in> ?R" by blast
next
  fix w assume "w \<in> ?R"
  then obtain p where p: "legalPath n p" "wordOf grd p = w"
    and good: "3 \<le> length w" "includes_word dict w" by blast
  from p(2) good(1) have ne: "p \<noteq> []" by (auto simp: wordOf_def)
  from p(1) have sub: "set p \<subseteq> {x. inBounds n x}" by (auto simp: legalPath_def list_all_iff)
  from ne have "hd p \<in> set p" by (rule hd_in_set)
  with sub have "inBounds n (hd p)" by blast
  moreover have "w \<in> wordsFrom grd dict {x. inBounds n x} (hd p) []"
    unfolding wordsFrom_def using p good ne sub
    by (intro CollectI exI [of _ p]) (simp add: legalPath_def)
  ultimately show "w \<in> ?L" by blast
qed

lemma solveGrid_depth_result:
  assumes "n * n \<le> d"
  shows "\<exists>ws. solveGrid_depth d n grd dict = Some ws \<and> distinct ws
           \<and> set ws = {w. 3 \<le> length w \<and> includes_word dict w
                          \<and> (\<exists>p. legalPath n p \<and> wordOf grd p = w)}"
proof -
  let ?v = "replicate n (replicate n False)"
  have small: "card (unvisited n ?v) \<le> d"
    using card_unvisited [of n ?v] assms by simp
  have step: "\<exists>f'. recursivelyFind d n grd dict r c [] (?v, f) = Some (?v, f')
                \<and> set f' = set f \<union> wordsFrom grd dict (unvisited n ?v) (r, c) []
                \<and> (distinct f \<longrightarrow> distinct f')" for r c f
    using wfVisited_replicate small by (rule recursivelyFind_result)
  from fold_recursivelyFind [where cs = "roots n" and f = "[]", OF step]
  obtain ws where ws:
    "fold (\<lambda>(r, c) acc. Option.bind acc (recursivelyFind d n grd dict r c [])) (roots n)
       (Some (?v, [])) = Some (?v, ws)"
    "set ws = (\<Union>x\<in>set (roots n). wordsFrom grd dict (unvisited n ?v) x [])"
    "distinct ws"
    by auto
  have "solveGrid_depth d n grd dict = Some ws"
    by (simp add: solveGrid_depth_def Let_def ws(1))
  moreover note ws(3)
  moreover from ws(2) have "set ws = {w. 3 \<le> length w \<and> includes_word dict w
                          \<and> (\<exists>p. legalPath n p \<and> wordOf grd p = w)}"
    by (simp add: set_roots unvisited_replicate wordsFrom_all)
  ultimately show ?thesis by blast
qed

text \<open>
  The depth bound does not matter once it is large enough: a search that returns with
  one bound returns the same with every larger bound, so every bound of at least
  \<open>n * n\<close> gives the result of \<open>solveGrid\<close>.
\<close>

lemma fold_bind_None:
  "fold (\<lambda>x acc. Option.bind acc (g x)) xs None = None"
  by (induction xs) simp_all

lemma fold_bind_deeper:
  assumes "\<And>x s y. g x s = Some y \<Longrightarrow> h x s = Some y"
    and "fold (\<lambda>x acc. Option.bind acc (g x)) xs s0 = Some z"
  shows "fold (\<lambda>x acc. Option.bind acc (h x)) xs s0 = Some z"
  using assms(2)
proof (induction xs arbitrary: s0)
  case Nil
  then show ?case by simp
next
  case (Cons x xs)
  show ?case
  proof (cases "Option.bind s0 (g x)")
    case None
    with Cons.prems show ?thesis by (simp add: fold_bind_None)
  next
    case (Some s1)
    then obtain s where s: "s0 = Some s" "g x s = Some s1" by (cases s0) auto
    with assms(1) have "Option.bind s0 (h x) = Some s1" by simp
    moreover from Cons.prems Some
    have "fold (\<lambda>x acc. Option.bind acc (g x)) xs (Some s1) = Some z" by simp
    ultimately show ?thesis using Cons.IH by simp
  qed
qed

lemma recursivelyFind_deeper:
  "recursivelyFind d n grd dict r c pre st = Some y \<Longrightarrow> d \<le> d'
   \<Longrightarrow> recursivelyFind d' n grd dict r c pre st = Some y"
proof (induction d arbitrary: d' r c pre st y)
  case 0
  obtain v f where st: "st = (v, f)" by (cases st)
  show ?case
  proof (cases "r < 0 \<or> r \<ge> int n \<or> c < 0 \<or> c \<ge> int n \<or> v ! nat r ! nat c
           \<or> \<not> potential dict (pre @ letterAt grd (r, c))")
    case True
    have "recursivelyFind 0 n grd dict r c pre (v, f) = Some (v, f)"
      "recursivelyFind d' n grd dict r c pre (v, f) = Some (v, f)"
      using True by (rule recursivelyFind_early)+
    with "0.prems"(1) show ?thesis by (simp add: st)
  next
    case False
    then have "recursivelyFind 0 n grd dict r c pre (v, f) = None"
      by (subst recursivelyFind.simps) (simp add: Let_def)
    with "0.prems"(1) show ?thesis by (simp add: st)
  qed
next
  case (Suc d)
  obtain v f where st: "st = (v, f)" by (cases st)
  show ?case
  proof (cases "r < 0 \<or> r \<ge> int n \<or> c < 0 \<or> c \<ge> int n \<or> v ! nat r ! nat c
           \<or> \<not> potential dict (pre @ letterAt grd (r, c))")
    case True
    have "recursivelyFind (Suc d) n grd dict r c pre (v, f) = Some (v, f)"
      "recursivelyFind d' n grd dict r c pre (v, f) = Some (v, f)"
      using True by (rule recursivelyFind_early)+
    with Suc.prems(1) show ?thesis by (simp add: st)
  next
    case False
    then have c: "\<not> (r < 0 \<or> r \<ge> int n \<or> c < 0 \<or> c \<ge> int n)" "\<not> v ! nat r ! nat c"
      "potential dict (pre @ letterAt grd (r, c))" by auto
    from Suc.prems(2) obtain e where e: "d' = Suc e" "d \<le> e" by (cases d') auto
    let ?np = "pre @ letterAt grd (r, c)"
    let ?s0 = "Some (mark v r c True,
                  if 3 \<le> length ?np \<and> includes_word dict ?np then set_add f ?np else f)"
    let ?F = "\<lambda>k (x :: int \<times> int) acc.
                Option.bind acc (recursivelyFind k n grd dict (r + fst x) (c + snd x) ?np)"
    have F: "(\<lambda>(dr, dc) acc. Option.bind acc (recursivelyFind k n grd dict (r + dr) (c + dc) ?np))
             = ?F k" for k
      by (simp add: fun_eq_iff)
    from Suc.prems(1) obtain z where z: "fold (?F d) neighbours ?s0 = Some z"
      unfolding st recursivelyFind_descend [OF c] F by (auto split: option.splits)
    have "fold (?F e) neighbours ?s0 = Some z"
      using _ z
    proof (rule fold_bind_deeper)
      fix x s y
      assume "recursivelyFind d n grd dict (r + fst x) (c + snd x) ?np s = Some y"
      then show "recursivelyFind e n grd dict (r + fst x) (c + snd x) ?np s = Some y"
        using e(2) by (rule Suc.IH)
    qed
    with z Suc.prems(1) show ?thesis
      unfolding st e(1) recursivelyFind_descend [OF c] F by simp
  qed
qed

lemma solveGrid_depth_enough:
  assumes "n * n \<le> d"
  shows "solveGrid_depth d n grd dict = solveGrid n grd dict"
proof -
  from solveGrid_depth_result [of n "n * n" grd dict] obtain ws
    where ws: "solveGrid_depth (n * n) n grd dict = Some ws" by auto
  let ?G = "\<lambda>k x acc. Option.bind acc (case x of (r, c) \<Rightarrow> recursivelyFind k n grd dict r c [])"
  have G: "(\<lambda>(r, c) acc. Option.bind acc (recursivelyFind k n grd dict r c [])) = ?G k" for k
    by (simp add: fun_eq_iff)
  let ?s0 = "Some (replicate n (replicate n False), [])"
  from ws obtain z where z: "fold (?G (n * n)) (roots n) ?s0 = Some z"
    unfolding solveGrid_depth_def Let_def G by auto
  have "fold (?G d) (roots n) ?s0 = Some z"
    using _ z
  proof (rule fold_bind_deeper)
    fix x :: "int \<times> int" and s y
    assume "(case x of (r, c) \<Rightarrow> recursivelyFind (n * n) n grd dict r c []) s = Some y"
    then show "(case x of (r, c) \<Rightarrow> recursivelyFind d n grd dict r c []) s = Some y"
      using assms by (cases x) (auto intro: recursivelyFind_deeper)
  qed
  with z show ?thesis
    unfolding solveGrid_def solveGrid_depth_def Let_def G by simp
qed

section \<open>The solver: correctness and termination\<close>

text \<open>
  C1: on a grid of \<open>n\<close> rows of \<open>n\<close> cells, \<open>solveGrid\<close> returns, without
  duplicates, exactly the words of length at least 3 that are in the dictionary and are
  the letters along some legal path: distinct cells of the grid, consecutive ones at
  Chebyshev distance 1.
\<close>

theorem solveGrid_correct:
  "wfGrid n grd \<Longrightarrow>
     \<exists>ws. solveGrid n grd dict = Some ws \<and> distinct ws
        \<and> set ws = {w. 3 \<le> length w \<and> (\<exists>d. dict = Some d \<and> w \<in> set d)
                     \<and> (\<exists>p. legalPath n p \<and> wordOf grd p = w)}"
proof -
  have "includes_word dict w = (\<exists>d. dict = Some d \<and> w \<in> set d)" for w
    by (cases dict) (simp_all add: includes_word_def)
  with solveGrid_depth_result [of n "n * n" grd dict]
  show ?thesis by (simp add: solveGrid_def)
qed

text \<open>The solver on the example grid.\<close>

lemma demo_solve:
  "solveGrid 4 demoGrid (Some demoWords) = Some [''CAT'', ''CATS'', ''DOG'', ''DOGS'', ''NEWS'']"
  by code_simp

theorem solveGrid_correct_witness:
  "wfGrid 4 demoGrid
   \<and> solveGrid 4 demoGrid (Some demoWords) = Some [''CAT'', ''CATS'', ''DOG'', ''DOGS'', ''NEWS'']
   \<and> set [''CAT'', ''CATS'', ''DOG'', ''DOGS'', ''NEWS''] =
       {w. 3 \<le> length w \<and> (\<exists>d. Some demoWords = Some d \<and> w \<in> set d)
           \<and> (\<exists>p. legalPath 4 p \<and> wordOf demoGrid p = w)}"
proof -
  have wf: "wfGrid 4 demoGrid" by (simp add: wfGrid_def demoGrid_def)
  from solveGrid_correct [OF wf, of "Some demoWords"] obtain ws
    where ws: "solveGrid 4 demoGrid (Some demoWords) = Some ws"
      "set ws = {w. 3 \<le> length w \<and> (\<exists>d. Some demoWords = Some d \<and> w \<in> set d)
           \<and> (\<exists>p. legalPath 4 p \<and> wordOf demoGrid p = w)}"
    by blast
  from ws(1) have "ws = [''CAT'', ''CATS'', ''DOG'', ''DOGS'', ''NEWS'']"
    by (simp only: demo_solve option.inject)
  with ws(2) wf demo_solve show ?thesis by blast
qed

text \<open>
  C7: \<open>recursivelyFind\<close> returns for every grid, dictionary, cell and prefix as soon
  as the depth bound is at least the number of unvisited cells, which is at most the
  number of cells of the grid; the visited matrix is the same after the call. A call
  that passes the bounds check and the visited check marks a cell that was not visited,
  so the calls below it have one unvisited cell less.
\<close>

theorem recursivelyFind_terminates:
  "wfVisited n v \<Longrightarrow> card (unvisited n v) \<le> d \<Longrightarrow>
     (\<exists>found'. recursivelyFind d n grd dict r c pre (v, found) = Some (v, found'))
     \<and> card (unvisited n v) \<le> n * n
     \<and> (inBounds n (r, c) \<and> \<not> v ! nat r ! nat c
          \<longrightarrow> card (unvisited n (mark v r c True)) < card (unvisited n v))"
proof -
  assume wf: "wfVisited n v" and small: "card (unvisited n v) \<le> d"
  from recursivelyFind_result [OF wf small, of grd dict r c pre found]
  have "\<exists>found'. recursivelyFind d n grd dict r c pre (v, found) = Some (v, found')" by blast
  moreover have "card (unvisited n (mark v r c True)) < card (unvisited n v)"
    if "inBounds n (r, c)" "\<not> v ! nat r ! nat c"
  proof -
    from that have "(r, c) \<in> unvisited n v" by (simp add: unvisited_def set_roots)
    then show ?thesis
      unfolding unvisited_mark_True [OF wf that(1)]
      using finite_unvisited by (intro card_Diff1_less)
  qed
  ultimately show ?thesis using card_unvisited [of n v] by blast
qed

lemma demo_search:
  "recursivelyFind 16 4 demoGrid (Some demoWords) 0 0 []
     (replicate 4 (replicate 4 False), [])
   = Some (replicate 4 (replicate 4 False), [''CAT'', ''CATS''])"
  by code_simp

text \<open>
  With a bound of 2 the same search does not return: the word CAT needs three nested
  calls that mark a cell.
\<close>

lemma demo_search_shallow:
  "recursivelyFind 2 4 demoGrid (Some demoWords) 0 0 []
     (replicate 4 (replicate 4 False), []) = None"
  by code_simp

theorem recursivelyFind_terminates_witness:
  "wfVisited 4 (replicate 4 (replicate 4 False))
   \<and> card (unvisited 4 (replicate 4 (replicate 4 False))) \<le> 16
   \<and> recursivelyFind 16 4 demoGrid (Some demoWords) 0 0 []
        (replicate 4 (replicate 4 False), [])
      = Some (replicate 4 (replicate 4 False), [''CAT'', ''CATS''])"
proof -
  let ?v = "replicate 4 (replicate 4 False)"
  have wf: "wfVisited 4 ?v" by (rule wfVisited_replicate)
  have c: "card (unvisited 4 ?v) \<le> 16" using card_unvisited [of 4 ?v] by simp
  from recursivelyFind_terminates [OF wf c, of demoGrid "Some demoWords" 0 0 "[]" "[]"]
  have "\<exists>found'. recursivelyFind 16 4 demoGrid (Some demoWords) 0 0 [] (?v, []) = Some (?v, found')"
    by blast
  with wf c demo_search show ?thesis by blast
qed

section \<open>The generator\<close>

lemma extendDice_length: "totalSorts \<le> length (extendDice totalSorts sourceDice)"
proof (induction totalSorts sourceDice rule: extendDice.induct)
  case (1 totalSorts sourceDice)
  show ?case
  proof (cases "length sourceDice < totalSorts")
    case True
    with 1 show ?thesis by (subst extendDice.simps) simp
  next
    case False
    then show ?thesis by (subst extendDice.simps) simp
  qed
qed

lemma those_map_Some:
  "(\<And>x. x \<in> set xs \<Longrightarrow> g x = Some (f x)) \<Longrightarrow> those (map g xs) = Some (map f xs)"
  by (induction xs) simp_all

lemma cell_index: "i < n \<Longrightarrow> j < n \<Longrightarrow> i * n + j < n * n" for i j n :: nat
proof -
  assume "i < n" "j < n"
  then have "i * n + j < i * n + n" "Suc i \<le> n" by simp_all
  then have "i * n + j < Suc i * n" by simp
  also from \<open>Suc i \<le> n\<close> have "Suc i * n \<le> n * n" by (rule mult_le_mono1)
  finally show ?thesis .
qed

lemma buildGridData_shape:
  assumes "\<forall>xs. length (shuffle rnd xs) = length xs"
  shows "\<exists>g. buildGridData upper rnd n = Some g \<and> wfGrid n g"
proof -
  let ?src = "extendDice (n * n) (if n = 5 then DICE @ DICE_EXTENDED else DICE)"
  let ?sh = "take (n * n) (shuffle rnd ?src)"
  let ?cell = "\<lambda>i j. upper (charAt (?sh ! (i * n + j)) (face rnd (i * n + j)))"
  have len: "length ?sh = n * n"
    using assms extendDice_length [of "n * n" "if n = 5 then DICE @ DICE_EXTENDED else DICE"]
    by simp
  have row: "those (map (\<lambda>j. buildCell upper rnd ?sh (i * n + j)) [0..<n])
               = Some (map (?cell i) [0..<n])" if "i \<in> set [0..<n]" for i
  proof (rule those_map_Some)
    fix j assume "j \<in> set [0..<n]"
    with that have "i * n + j < n * n" by (simp add: cell_index)
    with len show "buildCell upper rnd ?sh (i * n + j) = Some (?cell i j)"
      by (simp add: buildCell_def)
  qed
  have "buildGridData upper rnd n = Some (map (\<lambda>i. map (?cell i) [0..<n]) [0..<n])"
    unfolding buildGridData_def Let_def by (rule those_map_Some) (rule row)
  moreover have "wfGrid n (map (\<lambda>i. map (?cell i) [0..<n]) [0..<n])"
    by (simp add: wfGrid_def list_all_iff)
  ultimately show ?thesis by blast
qed

lemma dice_length: "\<forall>die\<in>set (DICE @ DICE_EXTENDED). length die = 6"
  by (simp add: DICE_def DICE_EXTENDED_def u_def)

lemma extendDice_set: "set (extendDice totalSorts sourceDice) \<subseteq> set sourceDice \<union> set DICE"
proof (induction totalSorts sourceDice rule: extendDice.induct)
  case (1 totalSorts sourceDice)
  show ?case
  proof (cases "length sourceDice < totalSorts")
    case True
    with 1 show ?thesis by (subst extendDice.simps) auto
  next
    case False
    then show ?thesis by (subst extendDice.simps) simp
  qed
qed

lemma buildGridData_populated:
  assumes shuf: "\<forall>xs. length (shuffle rnd xs) = length xs \<and> set (shuffle rnd xs) \<subseteq> set xs"
    and fc: "\<forall>k. face rnd k < 6"
    and up: "\<forall>s. s \<noteq> [] \<longrightarrow> upper s \<noteq> []"
  shows "\<exists>g. buildGridData upper rnd n = Some g \<and> wfGrid n g \<and> populated upper g"
proof -
  let ?src = "extendDice (n * n) (if n = 5 then DICE @ DICE_EXTENDED else DICE)"
  let ?sh = "take (n * n) (shuffle rnd ?src)"
  let ?cell = "\<lambda>i j. upper (charAt (?sh ! (i * n + j)) (face rnd (i * n + j)))"
  have len: "length ?sh = n * n"
    using shuf extendDice_length [of "n * n" "if n = 5 then DICE @ DICE_EXTENDED else DICE"]
    by simp
  have "set ?sh \<subseteq> set (shuffle rnd ?src)" by (rule set_take_subset)
  also have "\<dots> \<subseteq> set ?src" using shuf by simp
  also have "\<dots> \<subseteq> set (DICE @ DICE_EXTENDED)"
    using extendDice_set [of "n * n" "if n = 5 then DICE @ DICE_EXTENDED else DICE"] by auto
  finally have pool: "set ?sh \<subseteq> set (DICE @ DICE_EXTENDED)" .
  have row: "those (map (\<lambda>j. buildCell upper rnd ?sh (i * n + j)) [0..<n])
               = Some (map (?cell i) [0..<n])" if "i \<in> set [0..<n]" for i
  proof (rule those_map_Some)
    fix j assume "j \<in> set [0..<n]"
    with that have "i * n + j < n * n" by (simp add: cell_index)
    with len show "buildCell upper rnd ?sh (i * n + j) = Some (?cell i j)"
      by (simp add: buildCell_def)
  qed
  have built: "buildGridData upper rnd n = Some (map (\<lambda>i. map (?cell i) [0..<n]) [0..<n])"
    unfolding buildGridData_def Let_def by (rule those_map_Some) (rule row)
  have shape: "wfGrid n (map (\<lambda>i. map (?cell i) [0..<n]) [0..<n])"
    by (simp add: wfGrid_def list_all_iff)
  have cell: "?cell i j \<noteq> []
      \<and> list_ex (\<lambda>die. list_ex (\<lambda>f. ?cell i j = upper [die ! f]) [0..<6]) (DICE @ DICE_EXTENDED)"
    if "i < n" "j < n" for i j
  proof -
    let ?k = "i * n + j"
    from that have "?k < n * n" by (rule cell_index)
    with len have "?k < length ?sh" by (simp only:)
    then have "?sh ! ?k \<in> set ?sh" by (rule nth_mem)
    with pool have die: "?sh ! ?k \<in> set (DICE @ DICE_EXTENDED)" by blast
    with dice_length have "length (?sh ! ?k) = 6" by blast
    with fc have c: "charAt (?sh ! ?k) (face rnd ?k) = [?sh ! ?k ! face rnd ?k]"
      by (simp add: charAt_def)
    with up have "?cell i j \<noteq> []" by simp
    moreover from c fc die
    have "list_ex (\<lambda>die. list_ex (\<lambda>f. ?cell i j = upper [die ! f]) [0..<6]) (DICE @ DICE_EXTENDED)"
      unfolding list_ex_iff by (intro bexI [of _ "?sh ! ?k"] bexI [of _ "face rnd ?k"]) simp_all
    ultimately show ?thesis by blast
  qed
  have "populated upper (map (\<lambda>i. map (?cell i) [0..<n]) [0..<n])"
    unfolding populated_def list_all_iff using cell by auto
  with built shape show ?thesis by blast
qed

lemma candidate_populated:
  assumes "\<forall>i xs. length (shuffle (rnd i) xs) = length xs \<and> set (shuffle (rnd i) xs) \<subseteq> set xs"
    and "\<forall>i k. face (rnd i) k < 6"
    and "\<forall>s. s \<noteq> [] \<longrightarrow> upper s \<noteq> []"
  shows "populated upper (candidate upper rnd n i)"
proof -
  from assms(1) have "\<forall>xs. length (shuffle (rnd i) xs) = length xs
      \<and> set (shuffle (rnd i) xs) \<subseteq> set xs" by simp
  moreover from assms(2) have "\<forall>k. face (rnd i) k < 6" by simp
  ultimately show ?thesis
    using buildGridData_populated [of "rnd i" upper n] assms(3)
    by (auto simp: candidate_def)
qed

lemma candidate_built:
  assumes "\<forall>i xs. length (shuffle (rnd i) xs) = length xs"
  shows "buildGridData upper (rnd i) n = Some (candidate upper rnd n i)"
    and "wfGrid n (candidate upper rnd n i)"
proof -
  from assms have "\<forall>xs. length (shuffle (rnd i) xs) = length xs" by simp
  from buildGridData_shape [OF this, of upper n]
  show "buildGridData upper (rnd i) n = Some (candidate upper rnd n i)"
    and "wfGrid n (candidate upper rnd n i)"
    by (auto simp: candidate_def)
qed

lemma candidate_solved:
  "\<exists>ws. solveGrid n (candidate upper rnd n i) dict = Some ws
        \<and> length ws = wordCount upper dict rnd n i"
  using solveGrid_depth_result [of n "n * n" "candidate upper rnd n i" dict]
  by (auto simp: solveGrid_def wordCount_def)

lemma generateGrid_from_result:
  assumes shuf: "\<forall>i xs. length (shuffle (rnd i) xs) = length xs"
    and pos: "0 < maxAttempts"
    and le: "i \<le> maxAttempts"
    and below: "\<forall>j<i. wordCount upper dict rnd n j < minWords"
    and init: "i = 0 \<longrightarrow> maxFound = - 1"
    and best: "0 < i \<longrightarrow> (\<exists>k<i. bestGrid = candidate upper rnd n k
                  \<and> maxFound = int (wordCount upper dict rnd n k)
                  \<and> (\<forall>j<i. wordCount upper dict rnd n j \<le> wordCount upper dict rnd n k))"
  shows "\<exists>g built lg.
           generateGrid_from minWords maxAttempts upper dict rnd n i bestGrid maxFound
             = Some (g, built, lg)
           \<and> (\<exists>k<maxAttempts. g = candidate upper rnd n k
                \<and> (if minWords \<le> wordCount upper dict rnd n k
                    then built = k + 1 \<and> lg = Generated (k + 1) (wordCount upper dict rnd n k)
                         \<and> (\<forall>j<k. wordCount upper dict rnd n j < minWords)
                    else built = maxAttempts
                         \<and> lg = CouldNotFind (int (wordCount upper dict rnd n k))
                         \<and> (\<forall>j<maxAttempts. wordCount upper dict rnd n j < minWords
                                \<and> wordCount upper dict rnd n j \<le> wordCount upper dict rnd n k)))"
  using le below init best
proof (induction "maxAttempts - i" arbitrary: i bestGrid maxFound)
  case 0
  then have i: "i = maxAttempts" by simp
  with pos "0.prems" obtain k where k: "k < maxAttempts" "bestGrid = candidate upper rnd n k"
    "maxFound = int (wordCount upper dict rnd n k)"
    "\<forall>j<maxAttempts. wordCount upper dict rnd n j \<le> wordCount upper dict rnd n k"
    by auto
  from i "0.prems"(2) have all: "\<forall>j<maxAttempts. wordCount upper dict rnd n j < minWords" by simp
  with k(1) have "\<not> minWords \<le> wordCount upper dict rnd n k" by auto
  moreover have "generateGrid_from minWords maxAttempts upper dict rnd n i bestGrid maxFound
      = Some (bestGrid, maxAttempts, CouldNotFind maxFound)"
    by (subst generateGrid_from.simps) (simp add: i)
  ultimately show ?case using k all by auto
next
  case (Suc m)
  then have lt: "i < maxAttempts" by simp
  let ?cnt = "wordCount upper dict rnd n"
  let ?cand = "candidate upper rnd n"
  from candidate_solved [of n upper rnd i dict] obtain ws
    where ws: "solveGrid n (?cand i) dict = Some ws" "length ws = ?cnt i" by blast
  note built = candidate_built(1) [OF shuf, where upper = upper and i = i and n = n]
  show ?case
  proof (cases "minWords \<le> ?cnt i")
    case True
    have "generateGrid_from minWords maxAttempts upper dict rnd n i bestGrid maxFound
        = Some (?cand i, i + 1, Generated (i + 1) (?cnt i))"
      by (subst generateGrid_from.simps) (simp add: lt built ws True)
    with True lt Suc.prems(2) show ?thesis by auto
  next
    case False
    then have below': "\<forall>j<Suc i. ?cnt j < minWords"
      using Suc.prems(2) by (auto simp: less_Suc_eq)
    from Suc.hyps(2) have m: "m = maxAttempts - Suc i" by simp
    from lt have le': "Suc i \<le> maxAttempts" by simp
    show ?thesis
    proof (cases "int (?cnt i) > maxFound")
      case True
      have old: "?cnt j \<le> ?cnt i" if "j < i" for j
      proof -
        from that Suc.prems(4) obtain k where "maxFound = int (?cnt k)" "?cnt j \<le> ?cnt k"
          by auto
        with True show ?thesis by simp
      qed
      have step: "generateGrid_from minWords maxAttempts upper dict rnd n i bestGrid maxFound
          = generateGrid_from minWords maxAttempts upper dict rnd n (Suc i) (?cand i) (int (?cnt i))"
        by (subst generateGrid_from.simps) (simp add: lt built ws False True)
      have "0 < Suc i \<longrightarrow> (\<exists>k<Suc i. ?cand i = ?cand k \<and> int (?cnt i) = int (?cnt k)
                \<and> (\<forall>j<Suc i. ?cnt j \<le> ?cnt k))"
        using old by (auto simp: less_Suc_eq intro!: exI [of _ i])
      from Suc.hyps(1) [OF m le' below' _ this] show ?thesis unfolding step by simp
    next
      case keep: False
      have "0 < i"
      proof (rule ccontr)
        assume "\<not> 0 < i"
        with Suc.prems(3) have "maxFound = - 1" by simp
        with keep show False by simp
      qed
      with Suc.prems(4) obtain k where k: "k < i" "bestGrid = ?cand k" "maxFound = int (?cnt k)"
        "\<forall>j<i. ?cnt j \<le> ?cnt k" by auto
      have step: "generateGrid_from minWords maxAttempts upper dict rnd n i bestGrid maxFound
          = generateGrid_from minWords maxAttempts upper dict rnd n (Suc i) bestGrid maxFound"
        by (subst generateGrid_from.simps) (simp add: lt built ws False keep)
      from k keep have "0 < Suc i \<longrightarrow> (\<exists>k<Suc i. bestGrid = ?cand k \<and> maxFound = int (?cnt k)
                \<and> (\<forall>j<Suc i. ?cnt j \<le> ?cnt k))"
        by (auto simp: less_Suc_eq intro!: exI [of _ k])
      from Suc.hyps(1) [OF m le' below' _ this] show ?thesis unfolding step by simp
    qed
  qed
qed

text \<open>
  C3: when sorting gives back the dice it was given (as many, and no other), every
  random face index is one of the six and upper-casing keeps a non-empty string
  non-empty, \<open>generateGrid\<close> returns a grid of \<open>n\<close> rows of \<open>n\<close> cells, every cell
  holding the upper-cased face of a die, after building at least 1 and at most
  \<open>MAX_ATTEMPTS\<close> candidates. The grid is a candidate \<open>k\<close>: either it is the first
  candidate with at least \<open>MIN_WORDS\<close> words, and then exactly \<open>k + 1\<close> candidates
  were built; or no candidate has \<open>MIN_WORDS\<close> words, all \<open>MAX_ATTEMPTS\<close> candidates
  were built, and no candidate has more words than \<open>k\<close>.
\<close>

theorem generateGrid_commits:
  "\<forall>i xs. length (shuffle (rnd i) xs) = length xs \<and> set (shuffle (rnd i) xs) \<subseteq> set xs \<Longrightarrow>
   \<forall>i k. face (rnd i) k < 6 \<Longrightarrow>
   \<forall>s. s \<noteq> [] \<longrightarrow> upper s \<noteq> [] \<Longrightarrow>
     \<exists>g built lg.
        generateGrid upper dict rnd n = Some (g, built, lg)
        \<and> 1 \<le> built \<and> built \<le> MAX_ATTEMPTS \<and> wfGrid n g \<and> populated upper g
        \<and> (\<exists>k<MAX_ATTEMPTS. buildGridData upper (rnd k) n = Some g
             \<and> (if MIN_WORDS \<le> wordCount upper dict rnd n k
                 then built = k + 1 \<and> lg = Generated (k + 1) (wordCount upper dict rnd n k)
                      \<and> (\<forall>j<k. wordCount upper dict rnd n j < MIN_WORDS)
                 else built = MAX_ATTEMPTS
                      \<and> lg = CouldNotFind (int (wordCount upper dict rnd n k))
                      \<and> (\<forall>j<MAX_ATTEMPTS. wordCount upper dict rnd n j < MIN_WORDS
                             \<and> wordCount upper dict rnd n j \<le> wordCount upper dict rnd n k)))"
proof -
  assume sort: "\<forall>i xs. length (shuffle (rnd i) xs) = length xs
      \<and> set (shuffle (rnd i) xs) \<subseteq> set xs"
    and fc: "\<forall>i k. face (rnd i) k < 6"
    and up: "\<forall>s. s \<noteq> [] \<longrightarrow> upper s \<noteq> []"
  from sort have shuf: "\<forall>i xs. length (shuffle (rnd i) xs) = length xs" by simp
  have pos: "0 < MAX_ATTEMPTS" by (simp add: MAX_ATTEMPTS_def)
  from generateGrid_from_result [OF shuf pos, where i = 0 and maxFound = "- 1" and bestGrid = "[]"
      and minWords = MIN_WORDS and upper = upper and dict = dict and n = n]
  obtain g built lg k where r:
    "generateGrid upper dict rnd n = Some (g, built, lg)" "k < MAX_ATTEMPTS"
    "g = candidate upper rnd n k"
    "if MIN_WORDS \<le> wordCount upper dict rnd n k
     then built = k + 1 \<and> lg = Generated (k + 1) (wordCount upper dict rnd n k)
          \<and> (\<forall>j<k. wordCount upper dict rnd n j < MIN_WORDS)
     else built = MAX_ATTEMPTS
          \<and> lg = CouldNotFind (int (wordCount upper dict rnd n k))
          \<and> (\<forall>j<MAX_ATTEMPTS. wordCount upper dict rnd n j < MIN_WORDS
                 \<and> wordCount upper dict rnd n j \<le> wordCount upper dict rnd n k)"
    unfolding generateGrid_def by auto
  from r(3) candidate_built [OF shuf, where upper = upper and i = k and n = n]
  have g: "buildGridData upper (rnd k) n = Some g" "wfGrid n g" by simp_all
  from r(3) candidate_populated [OF sort fc up, of n k] have p: "populated upper g" by simp
  from r(2,4) pos have "1 \<le> built \<and> built \<le> MAX_ATTEMPTS" by (auto split: if_splits)
  with r g p show ?thesis by blast
qed

lemma demoRnd_sort:
  "\<forall>i xs. length (shuffle (demoRnd i) xs) = length xs \<and> set (shuffle (demoRnd i) xs) \<subseteq> set xs"
  by (simp add: demoRnd_def)

lemma demoRnd_face: "\<forall>i k. face (demoRnd i) k < 6"
  by (simp add: demoRnd_def)

lemma upperTR_nonempty: "\<forall>s. s \<noteq> [] \<longrightarrow> upperTR s \<noteq> []"
  by (simp add: upperTR_def)

theorem generateGrid_commits_witness:
  "(\<forall>i xs. length (shuffle (demoRnd i) xs) = length xs \<and> set (shuffle (demoRnd i) xs) \<subseteq> set xs)
   \<and> (\<forall>i k. face (demoRnd i) k < 6)
   \<and> (\<forall>s. s = [] \<or> upperTR s \<noteq> [])
   \<and> (\<exists>g built lg. generateGrid upperTR demoDict demoRnd 4 = Some (g, built, lg)
         \<and> 1 \<le> built \<and> built \<le> MAX_ATTEMPTS \<and> wfGrid 4 g \<and> populated upperTR g)"
proof -
  from generateGrid_commits [OF demoRnd_sort demoRnd_face upperTR_nonempty, of demoDict 4]
  have "\<exists>g built lg. generateGrid upperTR demoDict demoRnd 4 = Some (g, built, lg)
         \<and> 1 \<le> built \<and> built \<le> MAX_ATTEMPTS \<and> wfGrid 4 g \<and> populated upperTR g"
    by blast
  moreover have "\<forall>s. s = [] \<or> upperTR s \<noteq> []" by (simp add: upperTR_def)
  ultimately show ?thesis using demoRnd_sort demoRnd_face by blast
qed

text \<open>
  The loop with the thresholds 1000 and 5: five candidates with 2, 3, 2, 1 and 1 words
  are built and the second is committed; its last cell is the lower-case m of the first
  die, upper-cased (77). With the threshold 3 the loop stops at the second candidate.
\<close>

lemma generate_shortfall:
  "generateGrid_from 1000 5 upperTR demoDict demoRnd 4 0 [] (- 1) =
     Some ([[[65], [73], [79], [75]], [[86], [68], [69], [75]],
            [[78], [86], [90], [73]], [[199], [83], [82], [77]]], 5, CouldNotFind 3)"
  by code_simp

lemma generate_early_exit:
  "generateGrid_from 3 5 upperTR demoDict demoRnd 4 0 [] (- 1) =
     Some ([[[65], [73], [79], [75]], [[86], [68], [69], [75]],
            [[78], [86], [90], [73]], [[199], [83], [82], [77]]], 2, Generated 2 3)"
  by code_simp

text \<open>The committed grid of the first run is populated.\<close>

lemma generate_shortfall_populated:
  "populated upperTR [[[65], [73], [79], [75]], [[86], [68], [69], [75]],
            [[78], [86], [90], [73]], [[199], [83], [82], [77]]]"
  by code_simp

end
